theory Spec2Isabelle
  imports Main "HOL-Library.Word"
begin

unbundle bit_operations_syntax

section \<open>CRC-32C checksums of AFD: get_checksum_crc32c.c\<close>

text \<open>
  The C types of the source: \<open>unsigned int\<close> and \<open>uint32_t\<close> are 32-bit words,
  \<open>uint16_t\<close> 16-bit words, a \<open>char\<close> read from memory is a byte, and a pointer
  value (\<open>intptr_t\<close>) is a 64-bit word.
\<close>

type_synonym u8 = "8 word"
type_synonym u16 = "16 word"
type_synonym u32 = "32 word"
type_synonym u64 = "64 word"

subsection \<open>The eight lookup tables of the source\<close>

definition crc_tableil8_o32 :: "u32 list" where
  "crc_tableil8_o32 =
    [
     0x00000000, 0xF26B8303, 0xE13B70F7, 0x1350F3F4,
     0xC79A971F, 0x35F1141C, 0x26A1E7E8, 0xD4CA64EB,
     0x8AD958CF, 0x78B2DBCC, 0x6BE22838, 0x9989AB3B,
     0x4D43CFD0, 0xBF284CD3, 0xAC78BF27, 0x5E133C24,
     0x105EC76F, 0xE235446C, 0xF165B798, 0x030E349B,
     0xD7C45070, 0x25AFD373, 0x36FF2087, 0xC494A384,
     0x9A879FA0, 0x68EC1CA3, 0x7BBCEF57, 0x89D76C54,
     0x5D1D08BF, 0xAF768BBC, 0xBC267848, 0x4E4DFB4B,
     0x20BD8EDE, 0xD2D60DDD, 0xC186FE29, 0x33ED7D2A,
     0xE72719C1, 0x154C9AC2, 0x061C6936, 0xF477EA35,
     0xAA64D611, 0x580F5512, 0x4B5FA6E6, 0xB93425E5,
     0x6DFE410E, 0x9F95C20D, 0x8CC531F9, 0x7EAEB2FA,
     0x30E349B1, 0xC288CAB2, 0xD1D83946, 0x23B3BA45,
     0xF779DEAE, 0x05125DAD, 0x1642AE59, 0xE4292D5A,
     0xBA3A117E, 0x4851927D, 0x5B016189, 0xA96AE28A,
     0x7DA08661, 0x8FCB0562, 0x9C9BF696, 0x6EF07595,
     0x417B1DBC, 0xB3109EBF, 0xA0406D4B, 0x522BEE48,
     0x86E18AA3, 0x748A09A0, 0x67DAFA54, 0x95B17957,
     0xCBA24573, 0x39C9C670, 0x2A993584, 0xD8F2B687,
     0x0C38D26C, 0xFE53516F, 0xED03A29B, 0x1F682198,
     0x5125DAD3, 0xA34E59D0, 0xB01EAA24, 0x42752927,
     0x96BF4DCC, 0x64D4CECF, 0x77843D3B, 0x85EFBE38,
     0xDBFC821C, 0x2997011F, 0x3AC7F2EB, 0xC8AC71E8,
     0x1C661503, 0xEE0D9600, 0xFD5D65F4, 0x0F36E6F7,
     0x61C69362, 0x93AD1061, 0x80FDE395, 0x72966096,
     0xA65C047D, 0x5437877E, 0x4767748A, 0xB50CF789,
     0xEB1FCBAD, 0x197448AE, 0x0A24BB5A, 0xF84F3859,
     0x2C855CB2, 0xDEEEDFB1, 0xCDBE2C45, 0x3FD5AF46,
     0x7198540D, 0x83F3D70E, 0x90A324FA, 0x62C8A7F9,
     0xB602C312, 0x44694011, 0x5739B3E5, 0xA55230E6,
     0xFB410CC2, 0x092A8FC1, 0x1A7A7C35, 0xE811FF36,
     0x3CDB9BDD, 0xCEB018DE, 0xDDE0EB2A, 0x2F8B6829,
     0x82F63B78, 0x709DB87B, 0x63CD4B8F, 0x91A6C88C,
     0x456CAC67, 0xB7072F64, 0xA457DC90, 0x563C5F93,
     0x082F63B7, 0xFA44E0B4, 0xE9141340, 0x1B7F9043,
     0xCFB5F4A8, 0x3DDE77AB, 0x2E8E845F, 0xDCE5075C,
     0x92A8FC17, 0x60C37F14, 0x73938CE0, 0x81F80FE3,
     0x55326B08, 0xA759E80B, 0xB4091BFF, 0x466298FC,
     0x1871A4D8, 0xEA1A27DB, 0xF94AD42F, 0x0B21572C,
     0xDFEB33C7, 0x2D80B0C4, 0x3ED04330, 0xCCBBC033,
     0xA24BB5A6, 0x502036A5, 0x4370C551, 0xB11B4652,
     0x65D122B9, 0x97BAA1BA, 0x84EA524E, 0x7681D14D,
     0x2892ED69, 0xDAF96E6A, 0xC9A99D9E, 0x3BC21E9D,
     0xEF087A76, 0x1D63F975, 0x0E330A81, 0xFC588982,
     0xB21572C9, 0x407EF1CA, 0x532E023E, 0xA145813D,
     0x758FE5D6, 0x87E466D5, 0x94B49521, 0x66DF1622,
     0x38CC2A06, 0xCAA7A905, 0xD9F75AF1, 0x2B9CD9F2,
     0xFF56BD19, 0x0D3D3E1A, 0x1E6DCDEE, 0xEC064EED,
     0xC38D26C4, 0x31E6A5C7, 0x22B65633, 0xD0DDD530,
     0x0417B1DB, 0xF67C32D8, 0xE52CC12C, 0x1747422F,
     0x49547E0B, 0xBB3FFD08, 0xA86F0EFC, 0x5A048DFF,
     0x8ECEE914, 0x7CA56A17, 0x6FF599E3, 0x9D9E1AE0,
     0xD3D3E1AB, 0x21B862A8, 0x32E8915C, 0xC083125F,
     0x144976B4, 0xE622F5B7, 0xF5720643, 0x07198540,
     0x590AB964, 0xAB613A67, 0xB831C993, 0x4A5A4A90,
     0x9E902E7B, 0x6CFBAD78, 0x7FAB5E8C, 0x8DC0DD8F,
     0xE330A81A, 0x115B2B19, 0x020BD8ED, 0xF0605BEE,
     0x24AA3F05, 0xD6C1BC06, 0xC5914FF2, 0x37FACCF1,
     0x69E9F0D5, 0x9B8273D6, 0x88D28022, 0x7AB90321,
     0xAE7367CA, 0x5C18E4C9, 0x4F48173D, 0xBD23943E,
     0xF36E6F75, 0x0105EC76, 0x12551F82, 0xE03E9C81,
     0x34F4F86A, 0xC69F7B69, 0xD5CF889D, 0x27A40B9E,
     0x79B737BA, 0x8BDCB4B9, 0x988C474D, 0x6AE7C44E,
     0xBE2DA0A5, 0x4C4623A6, 0x5F16D052, 0xAD7D5351
    ]"

definition crc_tableil8_o40 :: "u32 list" where
  "crc_tableil8_o40 =
    [
     0x00000000, 0x13A29877, 0x274530EE, 0x34E7A899,
     0x4E8A61DC, 0x5D28F9AB, 0x69CF5132, 0x7A6DC945,
     0x9D14C3B8, 0x8EB65BCF, 0xBA51F356, 0xA9F36B21,
     0xD39EA264, 0xC03C3A13, 0xF4DB928A, 0xE7790AFD,
     0x3FC5F181, 0x2C6769F6, 0x1880C16F, 0x0B225918,
     0x714F905D, 0x62ED082A, 0x560AA0B3, 0x45A838C4,
     0xA2D13239, 0xB173AA4E, 0x859402D7, 0x96369AA0,
     0xEC5B53E5, 0xFFF9CB92, 0xCB1E630B, 0xD8BCFB7C,
     0x7F8BE302, 0x6C297B75, 0x58CED3EC, 0x4B6C4B9B,
     0x310182DE, 0x22A31AA9, 0x1644B230, 0x05E62A47,
     0xE29F20BA, 0xF13DB8CD, 0xC5DA1054, 0xD6788823,
     0xAC154166, 0xBFB7D911, 0x8B507188, 0x98F2E9FF,
     0x404E1283, 0x53EC8AF4, 0x670B226D, 0x74A9BA1A,
     0x0EC4735F, 0x1D66EB28, 0x298143B1, 0x3A23DBC6,
     0xDD5AD13B, 0xCEF8494C, 0xFA1FE1D5, 0xE9BD79A2,
     0x93D0B0E7, 0x80722890, 0xB4958009, 0xA737187E,
     0xFF17C604, 0xECB55E73, 0xD852F6EA, 0xCBF06E9D,
     0xB19DA7D8, 0xA23F3FAF, 0x96D89736, 0x857A0F41,
     0x620305BC, 0x71A19DCB, 0x45463552, 0x56E4AD25,
     0x2C896460, 0x3F2BFC17, 0x0BCC548E, 0x186ECCF9,
     0xC0D23785, 0xD370AFF2, 0xE797076B, 0xF4359F1C,
     0x8E585659, 0x9DFACE2E, 0xA91D66B7, 0xBABFFEC0,
     0x5DC6F43D, 0x4E646C4A, 0x7A83C4D3, 0x69215CA4,
     0x134C95E1, 0x00EE0D96, 0x3409A50F, 0x27AB3D78,
     0x809C2506, 0x933EBD71, 0xA7D915E8, 0xB47B8D9F,
     0xCE1644DA, 0xDDB4DCAD, 0xE9537434, 0xFAF1EC43,
     0x1D88E6BE, 0x0E2A7EC9, 0x3ACDD650, 0x296F4E27,
     0x53028762, 0x40A01F15, 0x7447B78C, 0x67E52FFB,
     0xBF59D487, 0xACFB4CF0, 0x981CE469, 0x8BBE7C1E,
     0xF1D3B55B, 0xE2712D2C, 0xD69685B5, 0xC5341DC2,
     0x224D173F, 0x31EF8F48, 0x050827D1, 0x16AABFA6,
     0x6CC776E3, 0x7F65EE94, 0x4B82460D, 0x5820DE7A,
     0xFBC3FAF9, 0xE861628E, 0xDC86CA17, 0xCF245260,
     0xB5499B25, 0xA6EB0352, 0x920CABCB, 0x81AE33BC,
     0x66D73941, 0x7575A136, 0x419209AF, 0x523091D8,
     0x285D589D, 0x3BFFC0EA, 0x0F186873, 0x1CBAF004,
     0xC4060B78, 0xD7A4930F, 0xE3433B96, 0xF0E1A3E1,
     0x8A8C6AA4, 0x992EF2D3, 0xADC95A4A, 0xBE6BC23D,
     0x5912C8C0, 0x4AB050B7, 0x7E57F82E, 0x6DF56059,
     0x1798A91C, 0x043A316B, 0x30DD99F2, 0x237F0185,
     0x844819FB, 0x97EA818C, 0xA30D2915, 0xB0AFB162,
     0xCAC27827, 0xD960E050, 0xED8748C9, 0xFE25D0BE,
     0x195CDA43, 0x0AFE4234, 0x3E19EAAD, 0x2DBB72DA,
     0x57D6BB9F, 0x447423E8, 0x70938B71, 0x63311306,
     0xBB8DE87A, 0xA82F700D, 0x9CC8D894, 0x8F6A40E3,
     0xF50789A6, 0xE6A511D1, 0xD242B948, 0xC1E0213F,
     0x26992BC2, 0x353BB3B5, 0x01DC1B2C, 0x127E835B,
     0x68134A1E, 0x7BB1D269, 0x4F567AF0, 0x5CF4E287,
     0x04D43CFD, 0x1776A48A, 0x23910C13, 0x30339464,
     0x4A5E5D21, 0x59FCC556, 0x6D1B6DCF, 0x7EB9F5B8,
     0x99C0FF45, 0x8A626732, 0xBE85CFAB, 0xAD2757DC,
     0xD74A9E99, 0xC4E806EE, 0xF00FAE77, 0xE3AD3600,
     0x3B11CD7C, 0x28B3550B, 0x1C54FD92, 0x0FF665E5,
     0x759BACA0, 0x663934D7, 0x52DE9C4E, 0x417C0439,
     0xA6050EC4, 0xB5A796B3, 0x81403E2A, 0x92E2A65D,
     0xE88F6F18, 0xFB2DF76F, 0xCFCA5FF6, 0xDC68C781,
     0x7B5FDFFF, 0x68FD4788, 0x5C1AEF11, 0x4FB87766,
     0x35D5BE23, 0x26772654, 0x12908ECD, 0x013216BA,
     0xE64B1C47, 0xF5E98430, 0xC10E2CA9, 0xD2ACB4DE,
     0xA8C17D9B, 0xBB63E5EC, 0x8F844D75, 0x9C26D502,
     0x449A2E7E, 0x5738B609, 0x63DF1E90, 0x707D86E7,
     0x0A104FA2, 0x19B2D7D5, 0x2D557F4C, 0x3EF7E73B,
     0xD98EEDC6, 0xCA2C75B1, 0xFECBDD28, 0xED69455F,
     0x97048C1A, 0x84A6146D, 0xB041BCF4, 0xA3E32483
    ]"

definition crc_tableil8_o48 :: "u32 list" where
  "crc_tableil8_o48 =
    [
     0x00000000, 0xA541927E, 0x4F6F520D, 0xEA2EC073,
     0x9EDEA41A, 0x3B9F3664, 0xD1B1F617, 0x74F06469,
     0x38513EC5, 0x9D10ACBB, 0x773E6CC8, 0xD27FFEB6,
     0xA68F9ADF, 0x03CE08A1, 0xE9E0C8D2, 0x4CA15AAC,
     0x70A27D8A, 0xD5E3EFF4, 0x3FCD2F87, 0x9A8CBDF9,
     0xEE7CD990, 0x4B3D4BEE, 0xA1138B9D, 0x045219E3,
     0x48F3434F, 0xEDB2D131, 0x079C1142, 0xA2DD833C,
     0xD62DE755, 0x736C752B, 0x9942B558, 0x3C032726,
     0xE144FB14, 0x4405696A, 0xAE2BA919, 0x0B6A3B67,
     0x7F9A5F0E, 0xDADBCD70, 0x30F50D03, 0x95B49F7D,
     0xD915C5D1, 0x7C5457AF, 0x967A97DC, 0x333B05A2,
     0x47CB61CB, 0xE28AF3B5, 0x08A433C6, 0xADE5A1B8,
     0x91E6869E, 0x34A714E0, 0xDE89D493, 0x7BC846ED,
     0x0F382284, 0xAA79B0FA, 0x40577089, 0xE516E2F7,
     0xA9B7B85B, 0x0CF62A25, 0xE6D8EA56, 0x43997828,
     0x37691C41, 0x92288E3F, 0x78064E4C, 0xDD47DC32,
     0xC76580D9, 0x622412A7, 0x880AD2D4, 0x2D4B40AA,
     0x59BB24C3, 0xFCFAB6BD, 0x16D476CE, 0xB395E4B0,
     0xFF34BE1C, 0x5A752C62, 0xB05BEC11, 0x151A7E6F,
     0x61EA1A06, 0xC4AB8878, 0x2E85480B, 0x8BC4DA75,
     0xB7C7FD53, 0x12866F2D, 0xF8A8AF5E, 0x5DE93D20,
     0x29195949, 0x8C58CB37, 0x66760B44, 0xC337993A,
     0x8F96C396, 0x2AD751E8, 0xC0F9919B, 0x65B803E5,
     0x1148678C, 0xB409F5F2, 0x5E273581, 0xFB66A7FF,
     0x26217BCD, 0x8360E9B3, 0x694E29C0, 0xCC0FBBBE,
     0xB8FFDFD7, 0x1DBE4DA9, 0xF7908DDA, 0x52D11FA4,
     0x1E704508, 0xBB31D776, 0x511F1705, 0xF45E857B,
     0x80AEE112, 0x25EF736C, 0xCFC1B31F, 0x6A802161,
     0x56830647, 0xF3C29439, 0x19EC544A, 0xBCADC634,
     0xC85DA25D, 0x6D1C3023, 0x8732F050, 0x2273622E,
     0x6ED23882, 0xCB93AAFC, 0x21BD6A8F, 0x84FCF8F1,
     0xF00C9C98, 0x554D0EE6, 0xBF63CE95, 0x1A225CEB,
     0x8B277743, 0x2E66E53D, 0xC448254E, 0x6109B730,
     0x15F9D359, 0xB0B84127, 0x5A968154, 0xFFD7132A,
     0xB3764986, 0x1637DBF8, 0xFC191B8B, 0x595889F5,
     0x2DA8ED9C, 0x88E97FE2, 0x62C7BF91, 0xC7862DEF,
     0xFB850AC9, 0x5EC498B7, 0xB4EA58C4, 0x11ABCABA,
     0x655BAED3, 0xC01A3CAD, 0x2A34FCDE, 0x8F756EA0,
     0xC3D4340C, 0x6695A672, 0x8CBB6601, 0x29FAF47F,
     0x5D0A9016, 0xF84B0268, 0x1265C21B, 0xB7245065,
     0x6A638C57, 0xCF221E29, 0x250CDE5A, 0x804D4C24,
     0xF4BD284D, 0x51FCBA33, 0xBBD27A40, 0x1E93E83E,
     0x5232B292, 0xF77320EC, 0x1D5DE09F, 0xB81C72E1,
     0xCCEC1688, 0x69AD84F6, 0x83834485, 0x26C2D6FB,
     0x1AC1F1DD, 0xBF8063A3, 0x55AEA3D0, 0xF0EF31AE,
     0x841F55C7, 0x215EC7B9, 0xCB7007CA, 0x6E3195B4,
     0x2290CF18, 0x87D15D66, 0x6DFF9D15, 0xC8BE0F6B,
     0xBC4E6B02, 0x190FF97C, 0xF321390F, 0x5660AB71,
     0x4C42F79A, 0xE90365E4, 0x032DA597, 0xA66C37E9,
     0xD29C5380, 0x77DDC1FE, 0x9DF3018D, 0x38B293F3,
     0x7413C95F, 0xD1525B21, 0x3B7C9B52, 0x9E3D092C,
     0xEACD6D45, 0x4F8CFF3B, 0xA5A23F48, 0x00E3AD36,
     0x3CE08A10, 0x99A1186E, 0x738FD81D, 0xD6CE4A63,
     0xA23E2E0A, 0x077FBC74, 0xED517C07, 0x4810EE79,
     0x04B1B4D5, 0xA1F026AB, 0x4BDEE6D8, 0xEE9F74A6,
     0x9A6F10CF, 0x3F2E82B1, 0xD50042C2, 0x7041D0BC,
     0xAD060C8E, 0x08479EF0, 0xE2695E83, 0x4728CCFD,
     0x33D8A894, 0x96993AEA, 0x7CB7FA99, 0xD9F668E7,
     0x9557324B, 0x3016A035, 0xDA386046, 0x7F79F238,
     0x0B899651, 0xAEC8042F, 0x44E6C45C, 0xE1A75622,
     0xDDA47104, 0x78E5E37A, 0x92CB2309, 0x378AB177,
     0x437AD51E, 0xE63B4760, 0x0C158713, 0xA954156D,
     0xE5F54FC1, 0x40B4DDBF, 0xAA9A1DCC, 0x0FDB8FB2,
     0x7B2BEBDB, 0xDE6A79A5, 0x3444B9D6, 0x91052BA8
    ]"

definition crc_tableil8_o56 :: "u32 list" where
  "crc_tableil8_o56 =
    [
     0x00000000, 0xDD45AAB8, 0xBF672381, 0x62228939,
     0x7B2231F3, 0xA6679B4B, 0xC4451272, 0x1900B8CA,
     0xF64463E6, 0x2B01C95E, 0x49234067, 0x9466EADF,
     0x8D665215, 0x5023F8AD, 0x32017194, 0xEF44DB2C,
     0xE964B13D, 0x34211B85, 0x560392BC, 0x8B463804,
     0x924680CE, 0x4F032A76, 0x2D21A34F, 0xF06409F7,
     0x1F20D2DB, 0xC2657863, 0xA047F15A, 0x7D025BE2,
     0x6402E328, 0xB9474990, 0xDB65C0A9, 0x06206A11,
     0xD725148B, 0x0A60BE33, 0x6842370A, 0xB5079DB2,
     0xAC072578, 0x71428FC0, 0x136006F9, 0xCE25AC41,
     0x2161776D, 0xFC24DDD5, 0x9E0654EC, 0x4343FE54,
     0x5A43469E, 0x8706EC26, 0xE524651F, 0x3861CFA7,
     0x3E41A5B6, 0xE3040F0E, 0x81268637, 0x5C632C8F,
     0x45639445, 0x98263EFD, 0xFA04B7C4, 0x27411D7C,
     0xC805C650, 0x15406CE8, 0x7762E5D1, 0xAA274F69,
     0xB327F7A3, 0x6E625D1B, 0x0C40D422, 0xD1057E9A,
     0xABA65FE7, 0x76E3F55F, 0x14C17C66, 0xC984D6DE,
     0xD0846E14, 0x0DC1C4AC, 0x6FE34D95, 0xB2A6E72D,
     0x5DE23C01, 0x80A796B9, 0xE2851F80, 0x3FC0B538,
     0x26C00DF2, 0xFB85A74A, 0x99A72E73, 0x44E284CB,
     0x42C2EEDA, 0x9F874462, 0xFDA5CD5B, 0x20E067E3,
     0x39E0DF29, 0xE4A57591, 0x8687FCA8, 0x5BC25610,
     0xB4868D3C, 0x69C32784, 0x0BE1AEBD, 0xD6A40405,
     0xCFA4BCCF, 0x12E11677, 0x70C39F4E, 0xAD8635F6,
     0x7C834B6C, 0xA1C6E1D4, 0xC3E468ED, 0x1EA1C255,
     0x07A17A9F, 0xDAE4D027, 0xB8C6591E, 0x6583F3A6,
     0x8AC7288A, 0x57828232, 0x35A00B0B, 0xE8E5A1B3,
     0xF1E51979, 0x2CA0B3C1, 0x4E823AF8, 0x93C79040,
     0x95E7FA51, 0x48A250E9, 0x2A80D9D0, 0xF7C57368,
     0xEEC5CBA2, 0x3380611A, 0x51A2E823, 0x8CE7429B,
     0x63A399B7, 0xBEE6330F, 0xDCC4BA36, 0x0181108E,
     0x1881A844, 0xC5C402FC, 0xA7E68BC5, 0x7AA3217D,
     0x52A0C93F, 0x8FE56387, 0xEDC7EABE, 0x30824006,
     0x2982F8CC, 0xF4C75274, 0x96E5DB4D, 0x4BA071F5,
     0xA4E4AAD9, 0x79A10061, 0x1B838958, 0xC6C623E0,
     0xDFC69B2A, 0x02833192, 0x60A1B8AB, 0xBDE41213,
     0xBBC47802, 0x6681D2BA, 0x04A35B83, 0xD9E6F13B,
     0xC0E649F1, 0x1DA3E349, 0x7F816A70, 0xA2C4C0C8,
     0x4D801BE4, 0x90C5B15C, 0xF2E73865, 0x2FA292DD,
     0x36A22A17, 0xEBE780AF, 0x89C50996, 0x5480A32E,
     0x8585DDB4, 0x58C0770C, 0x3AE2FE35, 0xE7A7548D,
     0xFEA7EC47, 0x23E246FF, 0x41C0CFC6, 0x9C85657E,
     0x73C1BE52, 0xAE8414EA, 0xCCA69DD3, 0x11E3376B,
     0x08E38FA1, 0xD5A62519, 0xB784AC20, 0x6AC10698,
     0x6CE16C89, 0xB1A4C631, 0xD3864F08, 0x0EC3E5B0,
     0x17C35D7A, 0xCA86F7C2, 0xA8A47EFB, 0x75E1D443,
     0x9AA50F6F, 0x47E0A5D7, 0x25C22CEE, 0xF8878656,
     0xE1873E9C, 0x3CC29424, 0x5EE01D1D, 0x83A5B7A5,
     0xF90696D8, 0x24433C60, 0x4661B559, 0x9B241FE1,
     0x8224A72B, 0x5F610D93, 0x3D4384AA, 0xE0062E12,
     0x0F42F53E, 0xD2075F86, 0xB025D6BF, 0x6D607C07,
     0x7460C4CD, 0xA9256E75, 0xCB07E74C, 0x16424DF4,
     0x106227E5, 0xCD278D5D, 0xAF050464, 0x7240AEDC,
     0x6B401616, 0xB605BCAE, 0xD4273597, 0x09629F2F,
     0xE6264403, 0x3B63EEBB, 0x59416782, 0x8404CD3A,
     0x9D0475F0, 0x4041DF48, 0x22635671, 0xFF26FCC9,
     0x2E238253, 0xF36628EB, 0x9144A1D2, 0x4C010B6A,
     0x5501B3A0, 0x88441918, 0xEA669021, 0x37233A99,
     0xD867E1B5, 0x05224B0D, 0x6700C234, 0xBA45688C,
     0xA345D046, 0x7E007AFE, 0x1C22F3C7, 0xC167597F,
     0xC747336E, 0x1A0299D6, 0x782010EF, 0xA565BA57,
     0xBC65029D, 0x6120A825, 0x0302211C, 0xDE478BA4,
     0x31035088, 0xEC46FA30, 0x8E647309, 0x5321D9B1,
     0x4A21617B, 0x9764CBC3, 0xF54642FA, 0x2803E842
    ]"

definition crc_tableil8_o64 :: "u32 list" where
  "crc_tableil8_o64 =
    [
     0x00000000, 0x38116FAC, 0x7022DF58, 0x4833B0F4,
     0xE045BEB0, 0xD854D11C, 0x906761E8, 0xA8760E44,
     0xC5670B91, 0xFD76643D, 0xB545D4C9, 0x8D54BB65,
     0x2522B521, 0x1D33DA8D, 0x55006A79, 0x6D1105D5,
     0x8F2261D3, 0xB7330E7F, 0xFF00BE8B, 0xC711D127,
     0x6F67DF63, 0x5776B0CF, 0x1F45003B, 0x27546F97,
     0x4A456A42, 0x725405EE, 0x3A67B51A, 0x0276DAB6,
     0xAA00D4F2, 0x9211BB5E, 0xDA220BAA, 0xE2336406,
     0x1BA8B557, 0x23B9DAFB, 0x6B8A6A0F, 0x539B05A3,
     0xFBED0BE7, 0xC3FC644B, 0x8BCFD4BF, 0xB3DEBB13,
     0xDECFBEC6, 0xE6DED16A, 0xAEED619E, 0x96FC0E32,
     0x3E8A0076, 0x069B6FDA, 0x4EA8DF2E, 0x76B9B082,
     0x948AD484, 0xAC9BBB28, 0xE4A80BDC, 0xDCB96470,
     0x74CF6A34, 0x4CDE0598, 0x04EDB56C, 0x3CFCDAC0,
     0x51EDDF15, 0x69FCB0B9, 0x21CF004D, 0x19DE6FE1,
     0xB1A861A5, 0x89B90E09, 0xC18ABEFD, 0xF99BD151,
     0x37516AAE, 0x0F400502, 0x4773B5F6, 0x7F62DA5A,
     0xD714D41E, 0xEF05BBB2, 0xA7360B46, 0x9F2764EA,
     0xF236613F, 0xCA270E93, 0x8214BE67, 0xBA05D1CB,
     0x1273DF8F, 0x2A62B023, 0x625100D7, 0x5A406F7B,
     0xB8730B7D, 0x806264D1, 0xC851D425, 0xF040BB89,
     0x5836B5CD, 0x6027DA61, 0x28146A95, 0x10050539,
     0x7D1400EC, 0x45056F40, 0x0D36DFB4, 0x3527B018,
     0x9D51BE5C, 0xA540D1F0, 0xED736104, 0xD5620EA8,
     0x2CF9DFF9, 0x14E8B055, 0x5CDB00A1, 0x64CA6F0D,
     0xCCBC6149, 0xF4AD0EE5, 0xBC9EBE11, 0x848FD1BD,
     0xE99ED468, 0xD18FBBC4, 0x99BC0B30, 0xA1AD649C,
     0x09DB6AD8, 0x31CA0574, 0x79F9B580, 0x41E8DA2C,
     0xA3DBBE2A, 0x9BCAD186, 0xD3F96172, 0xEBE80EDE,
     0x439E009A, 0x7B8F6F36, 0x33BCDFC2, 0x0BADB06E,
     0x66BCB5BB, 0x5EADDA17, 0x169E6AE3, 0x2E8F054F,
     0x86F90B0B, 0xBEE864A7, 0xF6DBD453, 0xCECABBFF,
     0x6EA2D55C, 0x56B3BAF0, 0x1E800A04, 0x269165A8,
     0x8EE76BEC, 0xB6F60440, 0xFEC5B4B4, 0xC6D4DB18,
     0xABC5DECD, 0x93D4B161, 0xDBE70195, 0xE3F66E39,
     0x4B80607D, 0x73910FD1, 0x3BA2BF25, 0x03B3D089,
     0xE180B48F, 0xD991DB23, 0x91A26BD7, 0xA9B3047B,
     0x01C50A3F, 0x39D46593, 0x71E7D567, 0x49F6BACB,
     0x24E7BF1E, 0x1CF6D0B2, 0x54C56046, 0x6CD40FEA,
     0xC4A201AE, 0xFCB36E02, 0xB480DEF6, 0x8C91B15A,
     0x750A600B, 0x4D1B0FA7, 0x0528BF53, 0x3D39D0FF,
     0x954FDEBB, 0xAD5EB117, 0xE56D01E3, 0xDD7C6E4F,
     0xB06D6B9A, 0x887C0436, 0xC04FB4C2, 0xF85EDB6E,
     0x5028D52A, 0x6839BA86, 0x200A0A72, 0x181B65DE,
     0xFA2801D8, 0xC2396E74, 0x8A0ADE80, 0xB21BB12C,
     0x1A6DBF68, 0x227CD0C4, 0x6A4F6030, 0x525E0F9C,
     0x3F4F0A49, 0x075E65E5, 0x4F6DD511, 0x777CBABD,
     0xDF0AB4F9, 0xE71BDB55, 0xAF286BA1, 0x9739040D,
     0x59F3BFF2, 0x61E2D05E, 0x29D160AA, 0x11C00F06,
     0xB9B60142, 0x81A76EEE, 0xC994DE1A, 0xF185B1B6,
     0x9C94B463, 0xA485DBCF, 0xECB66B3B, 0xD4A70497,
     0x7CD10AD3, 0x44C0657F, 0x0CF3D58B, 0x34E2BA27,
     0xD6D1DE21, 0xEEC0B18D, 0xA6F30179, 0x9EE26ED5,
     0x36946091, 0x0E850F3D, 0x46B6BFC9, 0x7EA7D065,
     0x13B6D5B0, 0x2BA7BA1C, 0x63940AE8, 0x5B856544,
     0xF3F36B00, 0xCBE204AC, 0x83D1B458, 0xBBC0DBF4,
     0x425B0AA5, 0x7A4A6509, 0x3279D5FD, 0x0A68BA51,
     0xA21EB415, 0x9A0FDBB9, 0xD23C6B4D, 0xEA2D04E1,
     0x873C0134, 0xBF2D6E98, 0xF71EDE6C, 0xCF0FB1C0,
     0x6779BF84, 0x5F68D028, 0x175B60DC, 0x2F4A0F70,
     0xCD796B76, 0xF56804DA, 0xBD5BB42E, 0x854ADB82,
     0x2D3CD5C6, 0x152DBA6A, 0x5D1E0A9E, 0x650F6532,
     0x081E60E7, 0x300F0F4B, 0x783CBFBF, 0x402DD013,
     0xE85BDE57, 0xD04AB1FB, 0x9879010F, 0xA0686EA3
    ]"

definition crc_tableil8_o72 :: "u32 list" where
  "crc_tableil8_o72 =
    [
     0x00000000, 0xEF306B19, 0xDB8CA0C3, 0x34BCCBDA,
     0xB2F53777, 0x5DC55C6E, 0x697997B4, 0x8649FCAD,
     0x6006181F, 0x8F367306, 0xBB8AB8DC, 0x54BAD3C5,
     0xD2F32F68, 0x3DC34471, 0x097F8FAB, 0xE64FE4B2,
     0xC00C303E, 0x2F3C5B27, 0x1B8090FD, 0xF4B0FBE4,
     0x72F90749, 0x9DC96C50, 0xA975A78A, 0x4645CC93,
     0xA00A2821, 0x4F3A4338, 0x7B8688E2, 0x94B6E3FB,
     0x12FF1F56, 0xFDCF744F, 0xC973BF95, 0x2643D48C,
     0x85F4168D, 0x6AC47D94, 0x5E78B64E, 0xB148DD57,
     0x370121FA, 0xD8314AE3, 0xEC8D8139, 0x03BDEA20,
     0xE5F20E92, 0x0AC2658B, 0x3E7EAE51, 0xD14EC548,
     0x570739E5, 0xB83752FC, 0x8C8B9926, 0x63BBF23F,
     0x45F826B3, 0xAAC84DAA, 0x9E748670, 0x7144ED69,
     0xF70D11C4, 0x183D7ADD, 0x2C81B107, 0xC3B1DA1E,
     0x25FE3EAC, 0xCACE55B5, 0xFE729E6F, 0x1142F576,
     0x970B09DB, 0x783B62C2, 0x4C87A918, 0xA3B7C201,
     0x0E045BEB, 0xE13430F2, 0xD588FB28, 0x3AB89031,
     0xBCF16C9C, 0x53C10785, 0x677DCC5F, 0x884DA746,
     0x6E0243F4, 0x813228ED, 0xB58EE337, 0x5ABE882E,
     0xDCF77483, 0x33C71F9A, 0x077BD440, 0xE84BBF59,
     0xCE086BD5, 0x213800CC, 0x1584CB16, 0xFAB4A00F,
     0x7CFD5CA2, 0x93CD37BB, 0xA771FC61, 0x48419778,
     0xAE0E73CA, 0x413E18D3, 0x7582D309, 0x9AB2B810,
     0x1CFB44BD, 0xF3CB2FA4, 0xC777E47E, 0x28478F67,
     0x8BF04D66, 0x64C0267F, 0x507CEDA5, 0xBF4C86BC,
     0x39057A11, 0xD6351108, 0xE289DAD2, 0x0DB9B1CB,
     0xEBF65579, 0x04C63E60, 0x307AF5BA, 0xDF4A9EA3,
     0x5903620E, 0xB6330917, 0x828FC2CD, 0x6DBFA9D4,
     0x4BFC7D58, 0xA4CC1641, 0x9070DD9B, 0x7F40B682,
     0xF9094A2F, 0x16392136, 0x2285EAEC, 0xCDB581F5,
     0x2BFA6547, 0xC4CA0E5E, 0xF076C584, 0x1F46AE9D,
     0x990F5230, 0x763F3929, 0x4283F2F3, 0xADB399EA,
     0x1C08B7D6, 0xF338DCCF, 0xC7841715, 0x28B47C0C,
     0xAEFD80A1, 0x41CDEBB8, 0x75712062, 0x9A414B7B,
     0x7C0EAFC9, 0x933EC4D0, 0xA7820F0A, 0x48B26413,
     0xCEFB98BE, 0x21CBF3A7, 0x1577387D, 0xFA475364,
     0xDC0487E8, 0x3334ECF1, 0x0788272B, 0xE8B84C32,
     0x6EF1B09F, 0x81C1DB86, 0xB57D105C, 0x5A4D7B45,
     0xBC029FF7, 0x5332F4EE, 0x678E3F34, 0x88BE542D,
     0x0EF7A880, 0xE1C7C399, 0xD57B0843, 0x3A4B635A,
     0x99FCA15B, 0x76CCCA42, 0x42700198, 0xAD406A81,
     0x2B09962C, 0xC439FD35, 0xF08536EF, 0x1FB55DF6,
     0xF9FAB944, 0x16CAD25D, 0x22761987, 0xCD46729E,
     0x4B0F8E33, 0xA43FE52A, 0x90832EF0, 0x7FB345E9,
     0x59F09165, 0xB6C0FA7C, 0x827C31A6, 0x6D4C5ABF,
     0xEB05A612, 0x0435CD0B, 0x308906D1, 0xDFB96DC8,
     0x39F6897A, 0xD6C6E263, 0xE27A29B9, 0x0D4A42A0,
     0x8B03BE0D, 0x6433D514, 0x508F1ECE, 0xBFBF75D7,
     0x120CEC3D, 0xFD3C8724, 0xC9804CFE, 0x26B027E7,
     0xA0F9DB4A, 0x4FC9B053, 0x7B757B89, 0x94451090,
     0x720AF422, 0x9D3A9F3B, 0xA98654E1, 0x46B63FF8,
     0xC0FFC355, 0x2FCFA84C, 0x1B736396, 0xF443088F,
     0xD200DC03, 0x3D30B71A, 0x098C7CC0, 0xE6BC17D9,
     0x60F5EB74, 0x8FC5806D, 0xBB794BB7, 0x544920AE,
     0xB206C41C, 0x5D36AF05, 0x698A64DF, 0x86BA0FC6,
     0x00F3F36B, 0xEFC39872, 0xDB7F53A8, 0x344F38B1,
     0x97F8FAB0, 0x78C891A9, 0x4C745A73, 0xA344316A,
     0x250DCDC7, 0xCA3DA6DE, 0xFE816D04, 0x11B1061D,
     0xF7FEE2AF, 0x18CE89B6, 0x2C72426C, 0xC3422975,
     0x450BD5D8, 0xAA3BBEC1, 0x9E87751B, 0x71B71E02,
     0x57F4CA8E, 0xB8C4A197, 0x8C786A4D, 0x63480154,
     0xE501FDF9, 0x0A3196E0, 0x3E8D5D3A, 0xD1BD3623,
     0x37F2D291, 0xD8C2B988, 0xEC7E7252, 0x034E194B,
     0x8507E5E6, 0x6A378EFF, 0x5E8B4525, 0xB1BB2E3C
    ]"

definition crc_tableil8_o80 :: "u32 list" where
  "crc_tableil8_o80 =
    [
     0x00000000, 0x68032CC8, 0xD0065990, 0xB8057558,
     0xA5E0C5D1, 0xCDE3E919, 0x75E69C41, 0x1DE5B089,
     0x4E2DFD53, 0x262ED19B, 0x9E2BA4C3, 0xF628880B,
     0xEBCD3882, 0x83CE144A, 0x3BCB6112, 0x53C84DDA,
     0x9C5BFAA6, 0xF458D66E, 0x4C5DA336, 0x245E8FFE,
     0x39BB3F77, 0x51B813BF, 0xE9BD66E7, 0x81BE4A2F,
     0xD27607F5, 0xBA752B3D, 0x02705E65, 0x6A7372AD,
     0x7796C224, 0x1F95EEEC, 0xA7909BB4, 0xCF93B77C,
     0x3D5B83BD, 0x5558AF75, 0xED5DDA2D, 0x855EF6E5,
     0x98BB466C, 0xF0B86AA4, 0x48BD1FFC, 0x20BE3334,
     0x73767EEE, 0x1B755226, 0xA370277E, 0xCB730BB6,
     0xD696BB3F, 0xBE9597F7, 0x0690E2AF, 0x6E93CE67,
     0xA100791B, 0xC90355D3, 0x7106208B, 0x19050C43,
     0x04E0BCCA, 0x6CE39002, 0xD4E6E55A, 0xBCE5C992,
     0xEF2D8448, 0x872EA880, 0x3F2BDDD8, 0x5728F110,
     0x4ACD4199, 0x22CE6D51, 0x9ACB1809, 0xF2C834C1,
     0x7AB7077A, 0x12B42BB2, 0xAAB15EEA, 0xC2B27222,
     0xDF57C2AB, 0xB754EE63, 0x0F519B3B, 0x6752B7F3,
     0x349AFA29, 0x5C99D6E1, 0xE49CA3B9, 0x8C9F8F71,
     0x917A3FF8, 0xF9791330, 0x417C6668, 0x297F4AA0,
     0xE6ECFDDC, 0x8EEFD114, 0x36EAA44C, 0x5EE98884,
     0x430C380D, 0x2B0F14C5, 0x930A619D, 0xFB094D55,
     0xA8C1008F, 0xC0C22C47, 0x78C7591F, 0x10C475D7,
     0x0D21C55E, 0x6522E996, 0xDD279CCE, 0xB524B006,
     0x47EC84C7, 0x2FEFA80F, 0x97EADD57, 0xFFE9F19F,
     0xE20C4116, 0x8A0F6DDE, 0x320A1886, 0x5A09344E,
     0x09C17994, 0x61C2555C, 0xD9C72004, 0xB1C40CCC,
     0xAC21BC45, 0xC422908D, 0x7C27E5D5, 0x1424C91D,
     0xDBB77E61, 0xB3B452A9, 0x0BB127F1, 0x63B20B39,
     0x7E57BBB0, 0x16549778, 0xAE51E220, 0xC652CEE8,
     0x959A8332, 0xFD99AFFA, 0x459CDAA2, 0x2D9FF66A,
     0x307A46E3, 0x58796A2B, 0xE07C1F73, 0x887F33BB,
     0xF56E0EF4, 0x9D6D223C, 0x25685764, 0x4D6B7BAC,
     0x508ECB25, 0x388DE7ED, 0x808892B5, 0xE88BBE7D,
     0xBB43F3A7, 0xD340DF6F, 0x6B45AA37, 0x034686FF,
     0x1EA33676, 0x76A01ABE, 0xCEA56FE6, 0xA6A6432E,
     0x6935F452, 0x0136D89A, 0xB933ADC2, 0xD130810A,
     0xCCD53183, 0xA4D61D4B, 0x1CD36813, 0x74D044DB,
     0x27180901, 0x4F1B25C9, 0xF71E5091, 0x9F1D7C59,
     0x82F8CCD0, 0xEAFBE018, 0x52FE9540, 0x3AFDB988,
     0xC8358D49, 0xA036A181, 0x1833D4D9, 0x7030F811,
     0x6DD54898, 0x05D66450, 0xBDD31108, 0xD5D03DC0,
     0x8618701A, 0xEE1B5CD2, 0x561E298A, 0x3E1D0542,
     0x23F8B5CB, 0x4BFB9903, 0xF3FEEC5B, 0x9BFDC093,
     0x546E77EF, 0x3C6D5B27, 0x84682E7F, 0xEC6B02B7,
     0xF18EB23E, 0x998D9EF6, 0x2188EBAE, 0x498BC766,
     0x1A438ABC, 0x7240A674, 0xCA45D32C, 0xA246FFE4,
     0xBFA34F6D, 0xD7A063A5, 0x6FA516FD, 0x07A63A35,
     0x8FD9098E, 0xE7DA2546, 0x5FDF501E, 0x37DC7CD6,
     0x2A39CC5F, 0x423AE097, 0xFA3F95CF, 0x923CB907,
     0xC1F4F4DD, 0xA9F7D815, 0x11F2AD4D, 0x79F18185,
     0x6414310C, 0x0C171DC4, 0xB412689C, 0xDC114454,
     0x1382F328, 0x7B81DFE0, 0xC384AAB8, 0xAB878670,
     0xB66236F9, 0xDE611A31, 0x66646F69, 0x0E6743A1,
     0x5DAF0E7B, 0x35AC22B3, 0x8DA957EB, 0xE5AA7B23,
     0xF84FCBAA, 0x904CE762, 0x2849923A, 0x404ABEF2,
     0xB2828A33, 0xDA81A6FB, 0x6284D3A3, 0x0A87FF6B,
     0x17624FE2, 0x7F61632A, 0xC7641672, 0xAF673ABA,
     0xFCAF7760, 0x94AC5BA8, 0x2CA92EF0, 0x44AA0238,
     0x594FB2B1, 0x314C9E79, 0x8949EB21, 0xE14AC7E9,
     0x2ED97095, 0x46DA5C5D, 0xFEDF2905, 0x96DC05CD,
     0x8B39B544, 0xE33A998C, 0x5B3FECD4, 0x333CC01C,
     0x60F48DC6, 0x08F7A10E, 0xB0F2D456, 0xD8F1F89E,
     0xC5144817, 0xAD1764DF, 0x15121187, 0x7D113D4F
    ]"

definition crc_tableil8_o88 :: "u32 list" where
  "crc_tableil8_o88 =
    [
     0x00000000, 0x493C7D27, 0x9278FA4E, 0xDB448769,
     0x211D826D, 0x6821FF4A, 0xB3657823, 0xFA590504,
     0x423B04DA, 0x0B0779FD, 0xD043FE94, 0x997F83B3,
     0x632686B7, 0x2A1AFB90, 0xF15E7CF9, 0xB86201DE,
     0x847609B4, 0xCD4A7493, 0x160EF3FA, 0x5F328EDD,
     0xA56B8BD9, 0xEC57F6FE, 0x37137197, 0x7E2F0CB0,
     0xC64D0D6E, 0x8F717049, 0x5435F720, 0x1D098A07,
     0xE7508F03, 0xAE6CF224, 0x7528754D, 0x3C14086A,
     0x0D006599, 0x443C18BE, 0x9F789FD7, 0xD644E2F0,
     0x2C1DE7F4, 0x65219AD3, 0xBE651DBA, 0xF759609D,
     0x4F3B6143, 0x06071C64, 0xDD439B0D, 0x947FE62A,
     0x6E26E32E, 0x271A9E09, 0xFC5E1960, 0xB5626447,
     0x89766C2D, 0xC04A110A, 0x1B0E9663, 0x5232EB44,
     0xA86BEE40, 0xE1579367, 0x3A13140E, 0x732F6929,
     0xCB4D68F7, 0x827115D0, 0x593592B9, 0x1009EF9E,
     0xEA50EA9A, 0xA36C97BD, 0x782810D4, 0x31146DF3,
     0x1A00CB32, 0x533CB615, 0x8878317C, 0xC1444C5B,
     0x3B1D495F, 0x72213478, 0xA965B311, 0xE059CE36,
     0x583BCFE8, 0x1107B2CF, 0xCA4335A6, 0x837F4881,
     0x79264D85, 0x301A30A2, 0xEB5EB7CB, 0xA262CAEC,
     0x9E76C286, 0xD74ABFA1, 0x0C0E38C8, 0x453245EF,
     0xBF6B40EB, 0xF6573DCC, 0x2D13BAA5, 0x642FC782,
     0xDC4DC65C, 0x9571BB7B, 0x4E353C12, 0x07094135,
     0xFD504431, 0xB46C3916, 0x6F28BE7F, 0x2614C358,
     0x1700AEAB, 0x5E3CD38C, 0x857854E5, 0xCC4429C2,
     0x361D2CC6, 0x7F2151E1, 0xA465D688, 0xED59ABAF,
     0x553BAA71, 0x1C07D756, 0xC743503F, 0x8E7F2D18,
     0x7426281C, 0x3D1A553B, 0xE65ED252, 0xAF62AF75,
     0x9376A71F, 0xDA4ADA38, 0x010E5D51, 0x48322076,
     0xB26B2572, 0xFB575855, 0x2013DF3C, 0x692FA21B,
     0xD14DA3C5, 0x9871DEE2, 0x4335598B, 0x0A0924AC,
     0xF05021A8, 0xB96C5C8F, 0x6228DBE6, 0x2B14A6C1,
     0x34019664, 0x7D3DEB43, 0xA6796C2A, 0xEF45110D,
     0x151C1409, 0x5C20692E, 0x8764EE47, 0xCE589360,
     0x763A92BE, 0x3F06EF99, 0xE44268F0, 0xAD7E15D7,
     0x572710D3, 0x1E1B6DF4, 0xC55FEA9D, 0x8C6397BA,
     0xB0779FD0, 0xF94BE2F7, 0x220F659E, 0x6B3318B9,
     0x916A1DBD, 0xD856609A, 0x0312E7F3, 0x4A2E9AD4,
     0xF24C9B0A, 0xBB70E62D, 0x60346144, 0x29081C63,
     0xD3511967, 0x9A6D6440, 0x4129E329, 0x08159E0E,
     0x3901F3FD, 0x703D8EDA, 0xAB7909B3, 0xE2457494,
     0x181C7190, 0x51200CB7, 0x8A648BDE, 0xC358F6F9,
     0x7B3AF727, 0x32068A00, 0xE9420D69, 0xA07E704E,
     0x5A27754A, 0x131B086D, 0xC85F8F04, 0x8163F223,
     0xBD77FA49, 0xF44B876E, 0x2F0F0007, 0x66337D20,
     0x9C6A7824, 0xD5560503, 0x0E12826A, 0x472EFF4D,
     0xFF4CFE93, 0xB67083B4, 0x6D3404DD, 0x240879FA,
     0xDE517CFE, 0x976D01D9, 0x4C2986B0, 0x0515FB97,
     0x2E015D56, 0x673D2071, 0xBC79A718, 0xF545DA3F,
     0x0F1CDF3B, 0x4620A21C, 0x9D642575, 0xD4585852,
     0x6C3A598C, 0x250624AB, 0xFE42A3C2, 0xB77EDEE5,
     0x4D27DBE1, 0x041BA6C6, 0xDF5F21AF, 0x96635C88,
     0xAA7754E2, 0xE34B29C5, 0x380FAEAC, 0x7133D38B,
     0x8B6AD68F, 0xC256ABA8, 0x19122CC1, 0x502E51E6,
     0xE84C5038, 0xA1702D1F, 0x7A34AA76, 0x3308D751,
     0xC951D255, 0x806DAF72, 0x5B29281B, 0x1215553C,
     0x230138CF, 0x6A3D45E8, 0xB179C281, 0xF845BFA6,
     0x021CBAA2, 0x4B20C785, 0x906440EC, 0xD9583DCB,
     0x613A3C15, 0x28064132, 0xF342C65B, 0xBA7EBB7C,
     0x4027BE78, 0x091BC35F, 0xD25F4436, 0x9B633911,
     0xA777317B, 0xEE4B4C5C, 0x350FCB35, 0x7C33B612,
     0x866AB316, 0xCF56CE31, 0x14124958, 0x5D2E347F,
     0xE54C35A1, 0xAC704886, 0x7734CFEF, 0x3E08B2C8,
     0xC451B7CC, 0x8D6DCAEB, 0x56294D82, 0x1F1530A5
    ]"

subsection \<open>Constants of afddefs.h\<close>

text \<open>
  Modelled from the spec: the header afddefs.h, which defines \<open>INITIAL_CRC\<close>,
  \<open>YES\<close>, \<open>NO\<close>, \<open>SUCCESS\<close> and \<open>INCORRECT\<close>, is not among the sources.
  The specification gives the seed as the all-ones pattern \<open>0xFFFFFFFF\<close>; the
  two flag values and the two return codes are AFD's usual ones.
\<close>

definition INITIAL_CRC :: u32 where
  "INITIAL_CRC = 0xFFFFFFFF"

definition YES :: int where
  "YES = 1"

definition NO :: int where
  "NO = 0"

definition SUCCESS :: int where
  "SUCCESS = 0"

definition INCORRECT :: int where
  "INCORRECT = - 1"

subsection \<open>Memory\<close>

text \<open>
  A buffer is the list of the bytes found from a pointer on; \<open>mem += n\<close> is
  \<open>drop n\<close> and \<open>*mem++\<close> reads \<open>hd\<close> and continues with \<open>tl\<close>. The
  numeric value of the pointer matters only for the alignment test of the software path
  and is passed beside the bytes. Wider loads through a cast pointer read the bytes in
  little-endian order, as on the x86 hosts the hardware path exists for.
\<close>

definition le16 :: "u8 \<Rightarrow> u8 \<Rightarrow> u16" where
  "le16 b0 b1 = ucast b0 OR push_bit 8 (ucast b1)"

definition le32 :: "u8 \<Rightarrow> u8 \<Rightarrow> u8 \<Rightarrow> u8 \<Rightarrow> u32" where
  "le32 b0 b1 b2 b3 =
     ucast b0 OR push_bit 8 (ucast b1) OR push_bit 16 (ucast b2) OR push_bit 24 (ucast b3)"

definition deref_u16 :: "u8 list \<Rightarrow> u16" where
  "deref_u16 mem = le16 (mem ! 0) (mem ! 1)"

definition deref_u32 :: "u8 list \<Rightarrow> u32" where
  "deref_u32 mem = le32 (mem ! 0) (mem ! 1) (mem ! 2) (mem ! 3)"

subsection \<open>The CRC32 instruction\<close>

text \<open>
  Modelled from the spec: \<open>__builtin_ia32_crc32qi\<close>, \<open>__builtin_ia32_crc32hi\<close> and
  \<open>__builtin_ia32_crc32si\<close> are compiler intrinsics for the processor's CRC32
  instruction and have no source in the repository. The specification calls them the
  native CRC32 instruction for CRC-32C (Castagnoli polynomial). The instruction folds the
  8, 16 or 32 bits of its operand into the running value, least significant bit first,
  dividing by the bit-reflected Castagnoli polynomial \<open>0x82F63B78\<close>.
\<close>

definition crc_bit_step :: "u32 \<Rightarrow> u32" where
  "crc_bit_step x = (if bit x 0 then drop_bit 1 x XOR 0x82F63B78 else drop_bit 1 x)"

definition builtin_ia32_crc32qi :: "u32 \<Rightarrow> u8 \<Rightarrow> u32" where
  "builtin_ia32_crc32qi crc v = (crc_bit_step ^^ 8) (crc XOR ucast v)"

definition builtin_ia32_crc32hi :: "u32 \<Rightarrow> u16 \<Rightarrow> u32" where
  "builtin_ia32_crc32hi crc v = (crc_bit_step ^^ 16) (crc XOR ucast v)"

definition builtin_ia32_crc32si :: "u32 \<Rightarrow> u32 \<Rightarrow> u32" where
  "builtin_ia32_crc32si crc v = (crc_bit_step ^^ 32) (crc XOR v)"

subsection \<open>get_checksum_crc32c\<close>

text \<open>
  The two branches of the function are written over the operations their loop bodies
  apply, and the function passes the operations of the source: the three forms of the
  instruction to the hardware branch, the table step for one byte and the body of the
  bulk loop to the software branch. So it can be stated, for operations of any kind, which
  operation is applied to which bytes.

  The hardware path. The \<open>for\<close> loop runs \<open>size / sizeof(uint32_t)\<close> times; the
  \<open>switch\<close> on the remaining \<open>size & 3\<close> bytes lets case 3 fall through into
  case 2.
\<close>

fun hw_word_loop ::
  "(u32 \<Rightarrow> u32 \<Rightarrow> u32) \<Rightarrow> nat \<Rightarrow> u32 \<Rightarrow> u8 list \<Rightarrow> u32 \<times> u8 list" where
  "hw_word_loop crc32si 0 crc mem = (crc, mem)"
| "hw_word_loop crc32si (Suc n) crc mem =
     hw_word_loop crc32si n (crc32si crc (deref_u32 mem)) (drop 4 mem)"

definition hw_tail_switch ::
  "(u32 \<Rightarrow> u16 \<Rightarrow> u32) \<Rightarrow> (u32 \<Rightarrow> u8 \<Rightarrow> u32) \<Rightarrow> nat \<Rightarrow> u32 \<Rightarrow> u8 list \<Rightarrow> u32" where
  "hw_tail_switch crc32hi crc32qi sz crc mem =
     (if sz = 3 then crc32hi (crc32qi crc (hd mem)) (deref_u16 (tl mem))
      else if sz = 2 then crc32hi crc (deref_u16 mem)
      else if sz = 1 then crc32qi crc (hd mem)
      else crc)"

definition hw_path ::
  "(u32 \<Rightarrow> u32 \<Rightarrow> u32) \<Rightarrow> (u32 \<Rightarrow> u16 \<Rightarrow> u32) \<Rightarrow> (u32 \<Rightarrow> u8 \<Rightarrow> u32) \<Rightarrow>
   u32 \<Rightarrow> u8 list \<Rightarrow> u32" where
  "hw_path crc32si crc32hi crc32qi icrc mem =
     (let sz = length mem;
          (crc, mem1) = hw_word_loop crc32si (sz div 4) icrc mem
      in hw_tail_switch crc32hi crc32qi (sz mod 4) crc mem1)"

text \<open>
  The software path. The single-byte step is
  \<open>crc = crc_tableil8_o32[(crc ^ *mem++) & 0x000000FF] ^ (crc >> 8)\<close>; the \<open>char\<close>
  read from memory is promoted with its sign before the exclusive or.
\<close>

definition crc_byte_step :: "u32 \<Rightarrow> u8 \<Rightarrow> u32" where
  "crc_byte_step crc c =
     crc_tableil8_o32 ! unat ((crc XOR scast c) AND 0x000000FF) XOR drop_bit 8 crc"

fun byte_loop ::
  "(u32 \<Rightarrow> u8 \<Rightarrow> u32) \<Rightarrow> nat \<Rightarrow> u32 \<Rightarrow> u8 list \<Rightarrow> u32 \<times> u8 list" where
  "byte_loop byte_step 0 crc mem = (crc, mem)"
| "byte_loop byte_step (Suc n) crc mem =
     byte_loop byte_step n (byte_step crc (hd mem)) (tl mem)"

text \<open>The body of the bulk loop: one group of eight bytes, read at the pointer.\<close>

definition slice8_step :: "u32 \<Rightarrow> u8 list \<Rightarrow> u32" where
  "slice8_step crc0 mem0 =
     (let crc = crc0 XOR deref_u32 mem0;
          mem = drop 4 mem0;
          term1 = crc_tableil8_o88 ! unat (crc AND 0x000000FF) XOR
                  crc_tableil8_o80 ! unat (drop_bit 8 crc AND 0x000000FF);
          term2 = drop_bit 16 crc;
          crc = term1 XOR crc_tableil8_o72 ! unat (term2 AND 0x000000FF) XOR
                crc_tableil8_o64 ! unat (drop_bit 8 term2 AND 0x000000FF);
          term1 = crc_tableil8_o56 ! unat (deref_u32 mem AND 0x000000FF) XOR
                  crc_tableil8_o48 ! unat (drop_bit 8 (deref_u32 mem) AND 0x000000FF);
          term2 = drop_bit 16 (deref_u32 mem)
      in crc XOR term1 XOR crc_tableil8_o40 ! unat (term2 AND 0x000000FF) XOR
         crc_tableil8_o32 ! unat (drop_bit 8 term2 AND 0x000000FF))"

fun bulk_loop ::
  "(u32 \<Rightarrow> u8 list \<Rightarrow> u32) \<Rightarrow> nat \<Rightarrow> u32 \<Rightarrow> u8 list \<Rightarrow> u32 \<times> u8 list" where
  "bulk_loop group_step 0 crc mem = (crc, mem)"
| "bulk_loop group_step (Suc n) crc mem =
     bulk_loop group_step n (group_step crc mem) (drop 8 mem)"

definition sw_path ::
  "(u32 \<Rightarrow> u8 \<Rightarrow> u32) \<Rightarrow> (u32 \<Rightarrow> u8 list \<Rightarrow> u32) \<Rightarrow> u32 \<Rightarrow> u64 \<Rightarrow> u8 list \<Rightarrow> u32" where
  "sw_path byte_step group_step icrc mem_addr mem =
     (let sz = length mem;
          initial_bytes = unat ((4 - mem_addr) AND 3);
          initial_bytes = (if sz < initial_bytes then sz else initial_bytes);
          (crc, mem1) = byte_loop byte_step initial_bytes icrc mem;
          sz = sz - initial_bytes;
          running_length = 8 * (sz div 8);
          end_bytes = sz - running_length;
          (crc, mem2) = bulk_loop group_step (running_length div 8) crc mem1
      in fst (byte_loop byte_step end_bytes crc mem2))"

text \<open>
  \<open>get_checksum_crc32c icrc mem size have_hw_crc32\<close>: \<open>mem\<close> is given by the pointer's
  value \<open>mem_addr\<close> and the \<open>size\<close> bytes it points to, so \<open>size\<close> is the length of
  the list. A \<open>size_t\<close> holds the size of every object in memory, so the sizes are
  natural numbers (\<open>sz\<close> stands for the variable \<open>size\<close>); \<open>size & ~7\<close> is \<open>8 * (size div 8)\<close> and \<open>size & 3\<close> is
  \<open>size mod 4\<close>.
\<close>

definition get_checksum_crc32c :: "u32 \<Rightarrow> u64 \<Rightarrow> u8 list \<Rightarrow> int \<Rightarrow> u32" where
  "get_checksum_crc32c icrc mem_addr mem have_hw_crc32 =
     (if have_hw_crc32 = YES then
        hw_path builtin_ia32_crc32si builtin_ia32_crc32hi builtin_ia32_crc32qi icrc mem
      else sw_path crc_byte_step slice8_step icrc mem_addr mem)"

subsection \<open>get_str_checksum_crc32c\<close>

text \<open>
  \<open>strlen\<close> counts the bytes before the first NUL. The string is the list of the bytes
  from the pointer on, the terminator included.
\<close>

fun strlen :: "u8 list \<Rightarrow> nat" where
  "strlen [] = 0"
| "strlen (c # cs) = (if c = 0 then 0 else Suc (strlen cs))"

definition get_str_checksum_crc32c :: "u64 \<Rightarrow> u8 list \<Rightarrow> int \<Rightarrow> u32" where
  "get_str_checksum_crc32c str_addr str have_hw_crc32 =
     get_checksum_crc32c INITIAL_CRC str_addr (take (strlen str) str) have_hw_crc32"


subsection \<open>The read system call\<close>

text \<open>
  Modelled from the spec: \<open>read\<close> is the operating system's call, not code of the
  repository. The specification uses it as a blocking primitive that returns the number of
  bytes read or an error, with 0 or fewer bytes than requested at the end of the file.
  A descriptor is the bytes still to come and a script for the next calls: \<open>None\<close>
  makes a call fail with \<open>-1\<close>, \<open>Some k\<close> makes it deliver at most \<open>k\<close> bytes (a
  short read), and once the script is used up every call delivers what is asked for, up to
  the end of the file. The descriptor also records each call: the count asked for and the
  value returned.
\<close>

record fd_state =
  content :: "u8 list"
  script :: "nat option list"
  log :: "(nat \<times> int) list"

definition read_fd :: "fd_state \<Rightarrow> nat \<Rightarrow> int \<times> u8 list \<times> fd_state" where
  "read_fd fd count =
     (case script fd of
        [] \<Rightarrow>
          (let data = take count (content fd) in
           (int (length data), data,
            fd\<lparr>content := drop (length data) (content fd),
               log := log fd @ [(count, int (length data))]\<rparr>))
      | None # rest \<Rightarrow>
          (- 1, [], fd\<lparr>script := rest, log := log fd @ [(count, - 1)]\<rparr>)
      | Some limit # rest \<Rightarrow>
          (let data = take (min count limit) (content fd) in
           (int (length data), data,
            fd\<lparr>content := drop (length data) (content fd), script := rest,
               log := log fd @ [(count, int (length data))]\<rparr>)))"

text \<open>The bytes a call delivers are stored into the buffer from position \<open>pos\<close> on.\<close>

definition store :: "u8 list \<Rightarrow> nat \<Rightarrow> u8 list \<Rightarrow> u8 list" where
  "store buffer pos data = take pos buffer @ data @ drop (pos + length data) buffer"

subsection \<open>get_file_checksum_crc32c\<close>

text \<open>
  The \<open>do ... while (bytes_read == buf_size)\<close> loop. It need not end (with
  \<open>buf_size = 0\<close> every read of no byte returns \<open>0 = buf_size\<close>), so the function
  is partial: \<open>None\<close> stands for a call that never returns. A result is the value
  returned, the checksum left in \<open>*crc\<close>, the buffer and the descriptor.
\<close>

partial_function (option) read_loop ::
  "u64 \<Rightarrow> int \<Rightarrow> int \<Rightarrow> fd_state \<Rightarrow> u8 list \<Rightarrow> u32 \<Rightarrow>
     (int \<times> u32 \<times> u8 list \<times> fd_state) option" where
  "read_loop buffer_addr buf_size have_hw_crc32 fd buffer crc =
     (case read_fd fd (nat buf_size) of
        (bytes_read, data, fd1) \<Rightarrow>
          (let buffer1 = store buffer 0 data in
           if bytes_read > 0 then
             (let crc1 = get_checksum_crc32c crc buffer_addr
                           (take (nat bytes_read) buffer1) have_hw_crc32
              in if bytes_read = buf_size
                 then read_loop buffer_addr buf_size have_hw_crc32 fd1 buffer1 crc1
                 else Some (SUCCESS, crc1, buffer1, fd1))
           else if bytes_read = - 1 then Some (INCORRECT, crc, buffer1, fd1)
           else if bytes_read = buf_size
                then read_loop buffer_addr buf_size have_hw_crc32 fd1 buffer1 crc
                else Some (SUCCESS, crc, buffer1, fd1)))"

declare read_loop.simps [code]

text \<open>
  \<open>get_file_checksum_crc32c fd buffer buf_size offset crc have_hw_crc32\<close>: the buffer is
  given by its address and its bytes. The caller passes \<open>0 \<le> offset \<le> buf_size\<close> and
  a buffer of \<open>buf_size\<close> bytes, so the counts handed to \<open>read\<close> are not negative
  and their conversion to \<open>size_t\<close> is \<open>nat\<close>.
\<close>

definition get_file_checksum_crc32c ::
  "fd_state \<Rightarrow> u64 \<Rightarrow> u8 list \<Rightarrow> int \<Rightarrow> int \<Rightarrow> int \<Rightarrow>
     (int \<times> u32 \<times> u8 list \<times> fd_state) option" where
  "get_file_checksum_crc32c fd buffer_addr buffer buf_size offset have_hw_crc32 =
     (let crc = INITIAL_CRC in
      case read_fd fd (nat (buf_size - offset)) of
        (bytes_read, data, fd1) \<Rightarrow>
          (let buffer1 = store buffer (nat offset) data in
           if bytes_read \<ge> 0 then
             (let bytes_read = bytes_read + offset;
                  crc = get_checksum_crc32c crc buffer_addr
                          (take (nat bytes_read) buffer1) have_hw_crc32
              in if bytes_read = buf_size
                 then read_loop buffer_addr buf_size have_hw_crc32 fd1 buffer1 crc
                 else Some (SUCCESS, crc, buffer1, fd1))
           else if bytes_read = - 1 then Some (INCORRECT, crc, buffer1, fd1)
           else if bytes_read = buf_size
                then read_loop buffer_addr buf_size have_hw_crc32 fd1 buffer1 crc
                else Some (SUCCESS, crc, buffer1, fd1)))"


subsection \<open>Auxiliary notions for the proofs\<close>

text \<open>Eight bit steps: the update for one byte, without any table.\<close>

definition crc_bits8 :: "u32 \<Rightarrow> u32" where
  "crc_bits8 x = (crc_bit_step ^^ 8) x"

text \<open>The byte values 0 to 255 in order, as indices into a table.\<close>

definition byte_values :: "u32 list" where
  "byte_values =
    [0x00, 0x01, 0x02, 0x03, 0x04, 0x05, 0x06, 0x07,
     0x08, 0x09, 0x0A, 0x0B, 0x0C, 0x0D, 0x0E, 0x0F,
     0x10, 0x11, 0x12, 0x13, 0x14, 0x15, 0x16, 0x17,
     0x18, 0x19, 0x1A, 0x1B, 0x1C, 0x1D, 0x1E, 0x1F,
     0x20, 0x21, 0x22, 0x23, 0x24, 0x25, 0x26, 0x27,
     0x28, 0x29, 0x2A, 0x2B, 0x2C, 0x2D, 0x2E, 0x2F,
     0x30, 0x31, 0x32, 0x33, 0x34, 0x35, 0x36, 0x37,
     0x38, 0x39, 0x3A, 0x3B, 0x3C, 0x3D, 0x3E, 0x3F,
     0x40, 0x41, 0x42, 0x43, 0x44, 0x45, 0x46, 0x47,
     0x48, 0x49, 0x4A, 0x4B, 0x4C, 0x4D, 0x4E, 0x4F,
     0x50, 0x51, 0x52, 0x53, 0x54, 0x55, 0x56, 0x57,
     0x58, 0x59, 0x5A, 0x5B, 0x5C, 0x5D, 0x5E, 0x5F,
     0x60, 0x61, 0x62, 0x63, 0x64, 0x65, 0x66, 0x67,
     0x68, 0x69, 0x6A, 0x6B, 0x6C, 0x6D, 0x6E, 0x6F,
     0x70, 0x71, 0x72, 0x73, 0x74, 0x75, 0x76, 0x77,
     0x78, 0x79, 0x7A, 0x7B, 0x7C, 0x7D, 0x7E, 0x7F,
     0x80, 0x81, 0x82, 0x83, 0x84, 0x85, 0x86, 0x87,
     0x88, 0x89, 0x8A, 0x8B, 0x8C, 0x8D, 0x8E, 0x8F,
     0x90, 0x91, 0x92, 0x93, 0x94, 0x95, 0x96, 0x97,
     0x98, 0x99, 0x9A, 0x9B, 0x9C, 0x9D, 0x9E, 0x9F,
     0xA0, 0xA1, 0xA2, 0xA3, 0xA4, 0xA5, 0xA6, 0xA7,
     0xA8, 0xA9, 0xAA, 0xAB, 0xAC, 0xAD, 0xAE, 0xAF,
     0xB0, 0xB1, 0xB2, 0xB3, 0xB4, 0xB5, 0xB6, 0xB7,
     0xB8, 0xB9, 0xBA, 0xBB, 0xBC, 0xBD, 0xBE, 0xBF,
     0xC0, 0xC1, 0xC2, 0xC3, 0xC4, 0xC5, 0xC6, 0xC7,
     0xC8, 0xC9, 0xCA, 0xCB, 0xCC, 0xCD, 0xCE, 0xCF,
     0xD0, 0xD1, 0xD2, 0xD3, 0xD4, 0xD5, 0xD6, 0xD7,
     0xD8, 0xD9, 0xDA, 0xDB, 0xDC, 0xDD, 0xDE, 0xDF,
     0xE0, 0xE1, 0xE2, 0xE3, 0xE4, 0xE5, 0xE6, 0xE7,
     0xE8, 0xE9, 0xEA, 0xEB, 0xEC, 0xED, 0xEE, 0xEF,
     0xF0, 0xF1, 0xF2, 0xF3, 0xF4, 0xF5, 0xF6, 0xF7,
     0xF8, 0xF9, 0xFA, 0xFB, 0xFC, 0xFD, 0xFE, 0xFF]"




section \<open>The checksum as a fold over the bytes\<close>

lemma and_255_take_bit: "(x :: u32) AND 0xFF = take_bit 8 x"
  by (simp add: take_bit_eq_mask mask_eq_exp_minus_1)

lemma crc_bit_step_xor: "crc_bit_step (x XOR y) = crc_bit_step x XOR crc_bit_step y"
proof -
  have d: "drop_bit 1 (x XOR y) = drop_bit 1 x XOR drop_bit 1 y"
    by simp
  have b: "bit (x XOR y) 0 = (bit x 0 \<noteq> bit y 0)"
    by (simp add: bit_xor_iff)
  show ?thesis
    by (cases "bit x 0"; cases "bit y 0") (simp_all add: crc_bit_step_def b d ac_simps)
qed

lemma crc_bits_xor: "(crc_bit_step ^^ n) (x XOR y) = (crc_bit_step ^^ n) x XOR (crc_bit_step ^^ n) y"
  by (induction n arbitrary: x y) (simp_all add: crc_bit_step_xor)

lemma crc_bits_shift: "take_bit n x = 0 \<Longrightarrow> (crc_bit_step ^^ n) x = drop_bit n x"
proof (induction n arbitrary: x)
  case 0
  then show ?case by simp
next
  case (Suc n)
  from Suc.prems have e: "\<not> bit x 0" 
    by (metis bit_of_bool_iff bit_take_bit_iff of_bool_eq(1) zero_less_Suc)
  from Suc.prems have t: "take_bit n (drop_bit 1 x) = 0"
    by (metis One_nat_def diff_Suc_1' drop_bit_of_0 drop_bit_take_bit)
  have "(crc_bit_step ^^ Suc n) x = (crc_bit_step ^^ n) (crc_bit_step x)"
    by (simp add: funpow_swap1)
  also have "crc_bit_step x = drop_bit 1 x" using e by (simp add: crc_bit_step_def)
  also have "(crc_bit_step ^^ n) (drop_bit 1 x) = drop_bit n (drop_bit 1 x)" using Suc.IH[OF t] .
  finally show ?case by simp
qed

lemma crc_bits8_xor: "crc_bits8 (x XOR y) = crc_bits8 x XOR crc_bits8 y"
  unfolding crc_bits8_def by (rule crc_bits_xor)

lemma crc_bits8_low_zero: "take_bit 8 x = 0 \<Longrightarrow> crc_bits8 x = drop_bit 8 x"
  unfolding crc_bits8_def by (rule crc_bits_shift)

lemma crc_bits8_0: "crc_bits8 0 = 0"
  by (simp add: crc_bits8_low_zero)

lemma crc_bits8_split: "crc_bits8 x = crc_bits8 (ucast (ucast x :: u8)) XOR drop_bit 8 x"
proof -
  define y where "y = x XOR take_bit 8 x"
  have x: "x = take_bit 8 x XOR y" unfolding y_def 
    by (simp add: xor.left_commute)
  have t: "take_bit 8 y = 0" unfolding y_def by simp
  have d: "drop_bit 8 y = drop_bit 8 x" unfolding y_def by (simp add: drop_bit_take_bit)
  have u: "take_bit 8 x = ucast (ucast x :: u8)"
    by (rule bit_eqI) (auto simp: bit_simps)
  have "crc_bits8 x = crc_bits8 (take_bit 8 x) XOR crc_bits8 y"
    by (subst x) (rule crc_bits8_xor)
  then show ?thesis by (simp add: crc_bits8_low_zero[OF t] d u)
qed

lemma crc_bits8_push:
  "n \<le> 16 \<Longrightarrow> crc_bits8 (push_bit (8 + n) (ucast (c :: u8))) = push_bit n (ucast c)"
proof -
  assume n: "n \<le> 16"
  have t: "take_bit 8 (push_bit (8 + n) (ucast c) :: u32) = 0"
    by (simp add: take_bit_push_bit)
  have "drop_bit 8 (push_bit (8 + n) (ucast c) :: u32) = push_bit n (ucast c)"
    using n by (intro bit_eqI) (auto simp: bit_simps dest: bit_imp_le_length)
  then show ?thesis by (simp add: crc_bits8_low_zero[OF t])
qed

lemma crc_bits8_push8: "crc_bits8 (push_bit 8 (ucast (c :: u8))) = ucast c"
  using crc_bits8_push[of 0 c] by simp

lemma crc_bits8_push16: "crc_bits8 (push_bit 16 (ucast (c :: u8))) = push_bit 8 (ucast c)"
  using crc_bits8_push[of 8 c] by simp

lemma crc_bits8_push24: "crc_bits8 (push_bit 24 (ucast (c :: u8))) = push_bit 16 (ucast c)"
  using crc_bits8_push[of 16 c] by simp

lemma le32_xor: "le32 b0 b1 b2 b3 =
     ucast b0 XOR push_bit 8 (ucast b1) XOR push_bit 16 (ucast b2) XOR push_bit 24 (ucast b3)"
  unfolding le32_def
  by (rule bit_eqI) (auto simp: bit_simps dest: bit_imp_le_length)

lemma le32_bytes:
  "le32 (ucast y) (ucast (drop_bit 8 y)) (ucast (drop_bit 16 y)) (ucast (drop_bit 24 y)) = y"
  unfolding le32_def
  apply (rule bit_eqI)
  apply (auto simp: bit_simps dest: bit_imp_le_length)
  subgoal for n by (cases "24 \<le> n") auto
  done

lemma ucast_le16: "(ucast (le16 b0 b1) :: u32) = ucast b0 XOR push_bit 8 (ucast b1)"
  unfolding le16_def
  by (rule bit_eqI) (auto simp: bit_simps dest: bit_imp_le_length)

lemma crc_bits8_le32:
  "crc_bits8 (crc_bits8 (crc_bits8 (crc_bits8 (x XOR le32 b0 b1 b2 b3)))) =
     crc_bits8 (crc_bits8 (crc_bits8 (crc_bits8 (x XOR ucast b0) XOR ucast b1) XOR ucast b2) XOR ucast b3)"
  by (simp add: le32_xor crc_bits8_xor crc_bits8_push8 crc_bits8_push16 crc_bits8_push24 xor.assoc)

lemma crc_bits8_le16:
  "crc_bits8 (crc_bits8 (x XOR ucast (le16 b0 b1))) =
     crc_bits8 (crc_bits8 (x XOR ucast b0) XOR ucast b1)"
  by (simp add: ucast_le16 crc_bits8_xor crc_bits8_push8 xor.assoc)

lemma funpow16: "(f ^^ 16) x = (f ^^ 8) ((f ^^ 8) x)"
proof -
  have "(16::nat) = 8 + 8" by simp
  then show ?thesis by (simp only: funpow_add o_apply)
qed

lemma funpow32: "(f ^^ 32) x = (f ^^ 8) ((f ^^ 8) ((f ^^ 8) ((f ^^ 8) x)))"
proof -
  have "(32::nat) = 8 + (8 + (8 + 8))" by simp
  then show ?thesis by (simp only: funpow_add o_apply)
qed

lemma qi_bits8: "builtin_ia32_crc32qi crc c = crc_bits8 (crc XOR ucast c)"
  by (simp only: builtin_ia32_crc32qi_def crc_bits8_def)

lemma hi_bits8: "builtin_ia32_crc32hi crc v = crc_bits8 (crc_bits8 (crc XOR ucast v))"
  by (simp only: builtin_ia32_crc32hi_def crc_bits8_def funpow16)

lemma si_bits8: "builtin_ia32_crc32si crc v = crc_bits8 (crc_bits8 (crc_bits8 (crc_bits8 (crc XOR v))))"
  by (simp only: builtin_ia32_crc32si_def crc_bits8_def funpow32)


lemma crc_bits8_unfold:
  "crc_bits8 x = crc_bit_step (crc_bit_step (crc_bit_step (crc_bit_step
     (crc_bit_step (crc_bit_step (crc_bit_step (crc_bit_step x)))))))"
  by (simp add: crc_bits8_def eval_nat_numeral)

text \<open>
  Each table is the previous one advanced by eight more bit steps, and the first holds the
  eight-step images of the byte values: all 2048 entries are computed and compared.
\<close>

lemma byte_values_upt: "byte_values = map of_nat [0..<256]"
  unfolding byte_values_def by code_simp

lemma tab_o32_values: "crc_tableil8_o32 = map crc_bits8 byte_values"
  unfolding crc_tableil8_o32_def byte_values_def
  by (simp add: crc_bits8_unfold crc_bit_step_def)

lemma tab_o32: "crc_tableil8_o32 = map (\<lambda>i. crc_bits8 (of_nat i)) [0..<256]"
  by (simp only: tab_o32_values byte_values_upt map_map o_def)

lemma tab_o40: "crc_tableil8_o40 = map crc_bits8 crc_tableil8_o32"
  unfolding crc_tableil8_o40_def crc_tableil8_o32_def
  by (simp add: crc_bits8_unfold crc_bit_step_def)

lemma tab_o48: "crc_tableil8_o48 = map crc_bits8 crc_tableil8_o40"
  unfolding crc_tableil8_o48_def crc_tableil8_o40_def
  by (simp add: crc_bits8_unfold crc_bit_step_def)

lemma tab_o56: "crc_tableil8_o56 = map crc_bits8 crc_tableil8_o48"
  unfolding crc_tableil8_o56_def crc_tableil8_o48_def
  by (simp add: crc_bits8_unfold crc_bit_step_def)

lemma tab_o64: "crc_tableil8_o64 = map crc_bits8 crc_tableil8_o56"
  unfolding crc_tableil8_o64_def crc_tableil8_o56_def
  by (simp add: crc_bits8_unfold crc_bit_step_def)

lemma tab_o72: "crc_tableil8_o72 = map crc_bits8 crc_tableil8_o64"
  unfolding crc_tableil8_o72_def crc_tableil8_o64_def
  by (simp add: crc_bits8_unfold crc_bit_step_def)

lemma tab_o80: "crc_tableil8_o80 = map crc_bits8 crc_tableil8_o72"
  unfolding crc_tableil8_o80_def crc_tableil8_o72_def
  by (simp add: crc_bits8_unfold crc_bit_step_def)

lemma tab_o88: "crc_tableil8_o88 = map crc_bits8 crc_tableil8_o80"
  unfolding crc_tableil8_o88_def crc_tableil8_o80_def
  by (simp add: crc_bits8_unfold crc_bit_step_def)

lemma length_tables:
  "length crc_tableil8_o32 = 256" "length crc_tableil8_o40 = 256"
  "length crc_tableil8_o48 = 256" "length crc_tableil8_o56 = 256"
  "length crc_tableil8_o64 = 256" "length crc_tableil8_o72 = 256"
  "length crc_tableil8_o80 = 256" "length crc_tableil8_o88 = 256"
  by (simp_all add: tab_o32 tab_o40 tab_o48 tab_o56 tab_o64 tab_o72 tab_o80 tab_o88)

lemma unat_and_255_less: "unat ((z :: u32) AND 0x000000FF) < 256"
  using take_bit_nat_less_exp[of 8 "unat z"]
  by (simp add: and_255_take_bit unsigned_take_bit_eq)

lemma low_byte_ucast: "(z :: u32) AND 0x000000FF = ucast (ucast z :: u8)"
  by (rule bit_eqI) (auto simp: bit_simps and_255_take_bit)

lemma o32_nth: "i < 256 \<Longrightarrow> crc_tableil8_o32 ! i = crc_bits8 (of_nat i)"
  by (simp add: tab_o32 del: upt_Suc)

lemma o40_nth: "i < 256 \<Longrightarrow> crc_tableil8_o40 ! i = crc_bits8 (crc_bits8 (of_nat i))"
  by (simp add: tab_o40 length_tables o32_nth)

lemma o48_nth: "i < 256 \<Longrightarrow> crc_tableil8_o48 ! i = crc_bits8 (crc_bits8 (crc_bits8 (of_nat i)))"
  by (simp add: tab_o48 length_tables o40_nth)

lemma o56_nth: "i < 256 \<Longrightarrow> crc_tableil8_o56 ! i =
    crc_bits8 (crc_bits8 (crc_bits8 (crc_bits8 (of_nat i))))"
  by (simp add: tab_o56 length_tables o48_nth)

lemma o64_nth: "i < 256 \<Longrightarrow> crc_tableil8_o64 ! i =
    crc_bits8 (crc_bits8 (crc_bits8 (crc_bits8 (crc_bits8 (of_nat i)))))"
  by (simp add: tab_o64 length_tables o56_nth)

lemma o72_nth: "i < 256 \<Longrightarrow> crc_tableil8_o72 ! i =
    crc_bits8 (crc_bits8 (crc_bits8 (crc_bits8 (crc_bits8 (crc_bits8 (of_nat i))))))"
  by (simp add: tab_o72 length_tables o64_nth)

lemma o80_nth: "i < 256 \<Longrightarrow> crc_tableil8_o80 ! i =
    crc_bits8 (crc_bits8 (crc_bits8 (crc_bits8 (crc_bits8 (crc_bits8 (crc_bits8 (of_nat i)))))))"
  by (simp add: tab_o80 length_tables o72_nth)

lemma o88_nth: "i < 256 \<Longrightarrow> crc_tableil8_o88 ! i =
    crc_bits8 (crc_bits8 (crc_bits8 (crc_bits8 (crc_bits8 (crc_bits8 (crc_bits8 (crc_bits8 (of_nat i))))))))"
  by (simp add: tab_o88 length_tables o80_nth)

lemma lane_o32: "crc_tableil8_o32 ! unat ((z :: u32) AND 0x000000FF) =
    crc_bits8 (ucast (ucast z :: u8))"
  using o32_nth[OF unat_and_255_less, of z] by (simp add: low_byte_ucast)

lemma lane_o40: "crc_tableil8_o40 ! unat ((z :: u32) AND 0x000000FF) =
    crc_bits8 (crc_bits8 (ucast (ucast z :: u8)))"
  using o40_nth[OF unat_and_255_less, of z] by (simp add: low_byte_ucast)

lemma lane_o48: "crc_tableil8_o48 ! unat ((z :: u32) AND 0x000000FF) =
    crc_bits8 (crc_bits8 (crc_bits8 (ucast (ucast z :: u8))))"
  using o48_nth[OF unat_and_255_less, of z] by (simp add: low_byte_ucast)

lemma lane_o56: "crc_tableil8_o56 ! unat ((z :: u32) AND 0x000000FF) =
    crc_bits8 (crc_bits8 (crc_bits8 (crc_bits8 (ucast (ucast z :: u8)))))"
  using o56_nth[OF unat_and_255_less, of z] by (simp add: low_byte_ucast)

lemma lane_o64: "crc_tableil8_o64 ! unat ((z :: u32) AND 0x000000FF) =
    crc_bits8 (crc_bits8 (crc_bits8 (crc_bits8 (crc_bits8 (ucast (ucast z :: u8))))))"
  using o64_nth[OF unat_and_255_less, of z] by (simp add: low_byte_ucast)

lemma lane_o72: "crc_tableil8_o72 ! unat ((z :: u32) AND 0x000000FF) =
    crc_bits8 (crc_bits8 (crc_bits8 (crc_bits8 (crc_bits8 (crc_bits8 (ucast (ucast z :: u8)))))))"
  using o72_nth[OF unat_and_255_less, of z] by (simp add: low_byte_ucast)

lemma lane_o80: "crc_tableil8_o80 ! unat ((z :: u32) AND 0x000000FF) =
    crc_bits8 (crc_bits8 (crc_bits8 (crc_bits8 (crc_bits8 (crc_bits8 (crc_bits8
      (ucast (ucast z :: u8))))))))"
  using o80_nth[OF unat_and_255_less, of z] by (simp add: low_byte_ucast)

lemma lane_o88: "crc_tableil8_o88 ! unat ((z :: u32) AND 0x000000FF) =
    crc_bits8 (crc_bits8 (crc_bits8 (crc_bits8 (crc_bits8 (crc_bits8 (crc_bits8 (crc_bits8
      (ucast (ucast z :: u8)))))))))"
  using o88_nth[OF unat_and_255_less, of z] by (simp add: low_byte_ucast)

lemmas lane_lookup =
  lane_o32 lane_o40 lane_o48 lane_o56 lane_o64 lane_o72 lane_o80 lane_o88

lemma crc_byte_step_bits8: "crc_byte_step crc c = crc_bits8 (crc XOR ucast c)"
proof -
  have s: "(ucast (crc XOR scast c) :: u8) = ucast (crc XOR ucast c)"
    by (rule bit_eqI) (auto simp: bit_simps dest: bit_imp_le_length)
  have d: "drop_bit 8 crc = drop_bit 8 (crc XOR ucast c)"
    by (rule bit_eqI) (auto simp: bit_simps dest: bit_imp_le_length)
  have "crc_byte_step crc c =
        crc_bits8 (ucast (ucast (crc XOR ucast c) :: u8)) XOR drop_bit 8 (crc XOR ucast c)"
    unfolding crc_byte_step_def lane_lookup using s d by simp
  then show ?thesis by (simp only: crc_bits8_split[symmetric])
qed

lemma slice_hi:
  "crc_tableil8_o88 ! unat (y AND 0x000000FF) XOR
   crc_tableil8_o80 ! unat (drop_bit 8 y AND 0x000000FF) XOR
   crc_tableil8_o72 ! unat (drop_bit 16 y AND 0x000000FF) XOR
   crc_tableil8_o64 ! unat (drop_bit 8 (drop_bit 16 y) AND 0x000000FF) =
   crc_bits8 (crc_bits8 (crc_bits8 (crc_bits8 (crc_bits8 (crc_bits8 (crc_bits8 (crc_bits8 y)))))))"
proof -
  have "crc_bits8 (crc_bits8 (crc_bits8 (crc_bits8 (crc_bits8 (crc_bits8 (crc_bits8 (crc_bits8 y))))))) =
    crc_bits8 (crc_bits8 (crc_bits8 (crc_bits8 (crc_bits8 (crc_bits8 (crc_bits8 (crc_bits8 
      (0 XOR le32 (ucast y) (ucast (drop_bit 8 y)) (ucast (drop_bit 16 y)) (ucast (drop_bit 24 y))))))))))"
    by (simp only: le32_bytes xor.left_neutral)
  also have "\<dots> = crc_bits8 (crc_bits8 (crc_bits8 (crc_bits8 (
     crc_bits8 (crc_bits8 (crc_bits8 (crc_bits8 (0 XOR ucast (ucast y :: u8)) XOR ucast (ucast (drop_bit 8 y) :: u8)) XOR ucast (ucast (drop_bit 16 y) :: u8)) XOR ucast (ucast (drop_bit 24 y) :: u8))))))"
    by (simp only: crc_bits8_le32)
  finally have e: "crc_bits8 (crc_bits8 (crc_bits8 (crc_bits8 (crc_bits8 (crc_bits8 (crc_bits8 (crc_bits8 y))))))) = \<dots>" .
  show ?thesis unfolding lane_lookup e by (simp add: crc_bits8_xor xor.assoc)
qed

lemma slice_lo:
  "crc_tableil8_o56 ! unat (y AND 0x000000FF) XOR
   crc_tableil8_o48 ! unat (drop_bit 8 y AND 0x000000FF) XOR
   crc_tableil8_o40 ! unat (drop_bit 16 y AND 0x000000FF) XOR
   crc_tableil8_o32 ! unat (drop_bit 8 (drop_bit 16 y) AND 0x000000FF) =
   crc_bits8 (crc_bits8 (crc_bits8 (crc_bits8 y)))"
proof -
  have "crc_bits8 (crc_bits8 (crc_bits8 (crc_bits8 y))) =
    crc_bits8 (crc_bits8 (crc_bits8 (crc_bits8 
      (0 XOR le32 (ucast y) (ucast (drop_bit 8 y)) (ucast (drop_bit 16 y)) (ucast (drop_bit 24 y))))))"
    by (simp only: le32_bytes xor.left_neutral)
  also have "\<dots> = 
     crc_bits8 (crc_bits8 (crc_bits8 (crc_bits8 (0 XOR ucast (ucast y :: u8)) XOR ucast (ucast (drop_bit 8 y) :: u8)) XOR ucast (ucast (drop_bit 16 y) :: u8)) XOR ucast (ucast (drop_bit 24 y) :: u8))"
    by (simp only: crc_bits8_le32)
  finally have e: "crc_bits8 (crc_bits8 (crc_bits8 (crc_bits8 y))) = \<dots>" .
  show ?thesis unfolding lane_lookup e by (simp add: crc_bits8_xor xor.assoc)
qed


lemma list8_cases:
  assumes "8 \<le> length (mem :: 'a list)"
  obtains b0 b1 b2 b3 b4 b5 b6 b7 rest where "mem = b0 # b1 # b2 # b3 # b4 # b5 # b6 # b7 # rest"
proof -
  from assms obtain b0 m1 where 1: "mem = b0 # m1" "7 \<le> length m1" by (cases mem) auto
  then obtain b1 m2 where 2: "m1 = b1 # m2" "6 \<le> length m2" by (cases m1) auto
  then obtain b2 m3 where 3: "m2 = b2 # m3" "5 \<le> length m3" by (cases m2) auto
  then obtain b3 m4 where 4: "m3 = b3 # m4" "4 \<le> length m4" by (cases m3) auto
  then obtain b4 m5 where 5: "m4 = b4 # m5" "3 \<le> length m5" by (cases m4) auto
  then obtain b5 m6 where 6: "m5 = b5 # m6" "2 \<le> length m6" by (cases m5) auto
  then obtain b6 m7 where 7: "m6 = b6 # m7" "1 \<le> length m7" by (cases m6) auto
  then obtain b7 m8 where 8: "m7 = b7 # m8" by (cases m7) auto
  show ?thesis using that 1 2 3 4 5 6 7 8 by simp
qed

lemma slice8_step_bytes:
  "slice8_step crc (b0 # b1 # b2 # b3 # b4 # b5 # b6 # b7 # rest) =
     foldl crc_byte_step crc [b0, b1, b2, b3, b4, b5, b6, b7]"
proof -
  define y where "y = crc XOR le32 b0 b1 b2 b3"
  define w where "w = le32 b4 b5 b6 b7"
  have "slice8_step crc (b0 # b1 # b2 # b3 # b4 # b5 # b6 # b7 # rest) =
     (crc_tableil8_o88 ! unat (y AND 0x000000FF) XOR
      crc_tableil8_o80 ! unat (drop_bit 8 y AND 0x000000FF) XOR
      crc_tableil8_o72 ! unat (drop_bit 16 y AND 0x000000FF) XOR
      crc_tableil8_o64 ! unat (drop_bit 8 (drop_bit 16 y) AND 0x000000FF)) XOR
     (crc_tableil8_o56 ! unat (w AND 0x000000FF) XOR
      crc_tableil8_o48 ! unat (drop_bit 8 w AND 0x000000FF) XOR
      crc_tableil8_o40 ! unat (drop_bit 16 w AND 0x000000FF) XOR
      crc_tableil8_o32 ! unat (drop_bit 8 (drop_bit 16 w) AND 0x000000FF))"
    unfolding slice8_step_def Let_def deref_u32_def y_def w_def
    by (simp add: xor.assoc)
  also have "\<dots> = crc_bits8 (crc_bits8 (crc_bits8 (crc_bits8 (crc_bits8 (crc_bits8 (crc_bits8 (crc_bits8 y))))))) XOR
      crc_bits8 (crc_bits8 (crc_bits8 (crc_bits8 w)))"
    by (simp only: slice_hi slice_lo)
  also have "\<dots> = crc_bits8 (crc_bits8 (crc_bits8 (crc_bits8 (crc_bits8 (crc_bits8 (crc_bits8 (crc_bits8 y))) XOR w))))"
    by (simp only: crc_bits8_xor)
  also have "\<dots> = foldl crc_byte_step crc [b0, b1, b2, b3, b4, b5, b6, b7]"
    unfolding y_def w_def by (simp only: crc_bits8_le32 foldl.simps crc_byte_step_bits8)
  finally show ?thesis .
qed

lemma slice8_step_fold:
  assumes "8 \<le> length mem"
  shows "slice8_step crc mem = foldl crc_byte_step crc (take 8 mem)"
proof -
  from assms obtain b0 b1 b2 b3 b4 b5 b6 b7 rest
    where m: "mem = b0 # b1 # b2 # b3 # b4 # b5 # b6 # b7 # rest"
    by (rule list8_cases)
  show ?thesis unfolding m by (simp only: slice8_step_bytes) simp
qed

lemma byte_loop_fold:
  "n \<le> length mem \<Longrightarrow>
     byte_loop step n crc mem = (foldl step crc (take n mem), drop n mem)"
proof (induction n arbitrary: crc mem)
  case 0
  then show ?case by simp
next
  case (Suc n)
  then obtain b rest where m: "mem = b # rest" by (cases mem) auto
  with Suc show ?case by simp
qed

lemma bulk_loop_fold:
  "8 * n \<le> length mem \<Longrightarrow>
     bulk_loop slice8_step n crc mem =
       (foldl crc_byte_step crc (take (8 * n) mem), drop (8 * n) mem)"
proof (induction n arbitrary: crc mem)
  case 0
  then show ?case by simp
next
  case (Suc n)
  have l: "8 \<le> length mem" "8 * n \<le> length (drop 8 mem)" using Suc.prems by simp_all
  have t: "take (8 * Suc n) mem = take 8 mem @ take (8 * n) (drop 8 mem)"
    by (simp add: take_add[symmetric])
  have d: "drop (8 * Suc n) mem = drop (8 * n) (drop 8 mem)"
    by (simp add: add.commute)
  show ?case
    by (simp only: bulk_loop.simps slice8_step_fold[OF l(1)] Suc.IH[OF l(2)] t d foldl_append)
qed

lemma hw_word_step_fold:
  assumes "4 \<le> length mem"
  shows "builtin_ia32_crc32si crc (deref_u32 mem) = foldl crc_byte_step crc (take 4 mem)"
proof -
  from assms obtain b0 m1 where 1: "mem = b0 # m1" "3 \<le> length m1" by (cases mem) auto
  then obtain b1 m2 where 2: "m1 = b1 # m2" "2 \<le> length m2" by (cases m1) auto
  then obtain b2 m3 where 3: "m2 = b2 # m3" "1 \<le> length m3" by (cases m2) auto
  then obtain b3 m4 where 4: "m3 = b3 # m4" by (cases m3) auto
  show ?thesis unfolding 1 2 3 4
    by (simp add: deref_u32_def si_bits8 crc_bits8_le32 crc_byte_step_bits8)
qed

lemma hw_word_loop_fold:
  "4 * n \<le> length mem \<Longrightarrow>
     hw_word_loop builtin_ia32_crc32si n crc mem =
       (foldl crc_byte_step crc (take (4 * n) mem), drop (4 * n) mem)"
proof (induction n arbitrary: crc mem)
  case 0
  then show ?case by simp
next
  case (Suc n)
  have l: "4 \<le> length mem" "4 * n \<le> length (drop 4 mem)" using Suc.prems by simp_all
  have t: "take (4 * Suc n) mem = take 4 mem @ take (4 * n) (drop 4 mem)"
    by (simp add: take_add[symmetric])
  have d: "drop (4 * Suc n) mem = drop (4 * n) (drop 4 mem)"
    by (simp add: add.commute)
  show ?case
    by (simp only: hw_word_loop.simps hw_word_step_fold[OF l(1)] Suc.IH[OF l(2)] t d foldl_append)
qed

lemma hw_tail_switch_fold:
  assumes "length mem < 4"
  shows "hw_tail_switch builtin_ia32_crc32hi builtin_ia32_crc32qi (length mem) crc mem =
    foldl crc_byte_step crc mem"
proof -
  from assms consider "mem = []" | b0 where "mem = [b0]" | b0 b1 where "mem = [b0, b1]"
    | b0 b1 b2 where "mem = [b0, b1, b2]"
    by (cases mem; cases "tl mem"; cases "tl (tl mem)"; cases "tl (tl (tl mem))") auto
  then show ?thesis
  proof cases
    case 1
    then show ?thesis by (simp add: hw_tail_switch_def)
  next
    case 2
    then show ?thesis by (simp add: hw_tail_switch_def qi_bits8 crc_byte_step_bits8)
  next
    case 3
    then show ?thesis
      by (simp add: hw_tail_switch_def deref_u16_def hi_bits8 crc_bits8_le16 crc_byte_step_bits8)
  next
    case 4
    then show ?thesis
      by (simp add: hw_tail_switch_def deref_u16_def hi_bits8 qi_bits8 crc_bits8_le16
          crc_byte_step_bits8)
  qed
qed

lemma hw_path_fold:
  "hw_path builtin_ia32_crc32si builtin_ia32_crc32hi builtin_ia32_crc32qi icrc mem =
     foldl crc_byte_step icrc mem"
proof -
  have l: "4 * (length mem div 4) \<le> length mem" by simp
  have r: "length (drop (4 * (length mem div 4)) mem) = length mem mod 4"
    by (simp add: minus_mult_div_eq_mod)
  have "hw_path builtin_ia32_crc32si builtin_ia32_crc32hi builtin_ia32_crc32qi icrc mem =
      hw_tail_switch builtin_ia32_crc32hi builtin_ia32_crc32qi
        (length (drop (4 * (length mem div 4)) mem))
        (foldl crc_byte_step icrc (take (4 * (length mem div 4)) mem))
        (drop (4 * (length mem div 4)) mem)"
    unfolding hw_path_def Let_def
    by (simp only: hw_word_loop_fold[OF l] r split_conv)
  also have "\<dots> = foldl crc_byte_step (foldl crc_byte_step icrc (take (4 * (length mem div 4)) mem))
        (drop (4 * (length mem div 4)) mem)"
    by (rule hw_tail_switch_fold) (simp add: r)
  finally show ?thesis by (simp only: foldl_append[symmetric] append_take_drop_id)
qed

lemma sw_path_fold:
  "sw_path crc_byte_step slice8_step icrc mem_addr mem = foldl crc_byte_step icrc mem"
proof -
  define ib where "ib = (if length mem < unat ((4 - mem_addr) AND 3) then length mem
     else unat ((4 - mem_addr) AND 3))"
  define rl where "rl = 8 * ((length mem - ib) div 8)"
  have ib: "ib \<le> length mem" by (simp add: ib_def)
  have rl: "8 * (rl div 8) \<le> length (drop ib mem)" by (simp add: rl_def)
  have rl8: "8 * (rl div 8) = rl" by (simp add: rl_def)
  have e: "length mem - ib - rl \<le> length (drop rl (drop ib mem))" by simp
  have e': "take (length mem - ib - rl) (drop rl (drop ib mem)) = drop rl (drop ib mem)"
    by simp
  have "sw_path crc_byte_step slice8_step icrc mem_addr mem =
    foldl crc_byte_step (foldl crc_byte_step (foldl crc_byte_step icrc (take ib mem))
       (take rl (drop ib mem))) (drop rl (drop ib mem))"
    unfolding sw_path_def Let_def ib_def[symmetric] rl_def[symmetric]
    by (simp only: byte_loop_fold[OF ib] split_conv bulk_loop_fold[OF rl] rl8
        byte_loop_fold[OF e] e' fst_conv)
  then show ?thesis
    by (simp only: foldl_append[symmetric] append_assoc append_take_drop_id)
qed

lemma get_checksum_crc32c_fold:
  "get_checksum_crc32c icrc mem_addr mem have_hw_crc32 = foldl crc_byte_step icrc mem"
  unfolding get_checksum_crc32c_def by (simp only: hw_path_fold sw_path_fold if_cancel)

section \<open>Properties of get_checksum_crc32c and get_str_checksum_crc32c\<close>

lemma foldl_chunks:
  "foldl (\<lambda>crc chunk. foldl f crc (snd chunk)) icrc chunks = foldl f icrc (concat (map snd chunks))"
  by (induction chunks arbitrary: icrc) simp_all

text \<open>
  C1 (chunking invariance). For every initial value, every sequence of chunks (each at any
  address) and either value of \<open>have_hw_crc32\<close>, running \<open>get_checksum_crc32c\<close> over
  the chunks in order, each call starting from the result of the one before, gives the
  value of a single call over the concatenation of the chunks.
\<close>

theorem chunking_invariance:
  "foldl (\<lambda>crc chunk. get_checksum_crc32c crc (fst chunk) (snd chunk) have_hw_crc32) icrc chunks =
     get_checksum_crc32c icrc mem_addr (concat (map snd chunks)) have_hw_crc32"
  by (simp only: get_checksum_crc32c_fold foldl_chunks)

text \<open>
  C2 (hardware and software agree). For every initial value, every buffer of any length
  at any address, the call with \<open>have_hw_crc32 = YES\<close> and the call with
  \<open>have_hw_crc32 = NO\<close> return the same 32-bit value.
\<close>

theorem hardware_software_equivalence:
  "get_checksum_crc32c icrc mem_addr mem YES = get_checksum_crc32c icrc mem_addr mem NO"
  by (simp only: get_checksum_crc32c_fold)

lemma crc_byte_step_eval:
  "crc_byte_step crc c = crc_bit_step (crc_bit_step (crc_bit_step (crc_bit_step
     (crc_bit_step (crc_bit_step (crc_bit_step (crc_bit_step (crc XOR ucast c))))))))"
  by (simp only: crc_byte_step_bits8 crc_bits8_unfold)

text \<open>
  C3 (known answers). The claim that the software path started from \<open>INITIAL_CRC\<close>
  returns the published CRC-32C values fails: for the ASCII string 123456789 the result is
  not \<open>0xE3069283\<close>.
\<close>

theorem known_answer_counterexample:
  "get_checksum_crc32c INITIAL_CRC 0 [0x31, 0x32, 0x33, 0x34, 0x35, 0x36, 0x37, 0x38, 0x39] NO
     \<noteq> 0xE3069283"
  unfolding get_checksum_crc32c_fold
  by (simp add: INITIAL_CRC_def crc_byte_step_eval crc_bit_step_def)

text \<open>
  C3, as amended. \<open>get_checksum_crc32c\<close> never applies the final inversion of CRC-32C:
  on the software path started from \<open>INITIAL_CRC\<close>, the bitwise complement of the
  result is the published CRC-32C value for the empty buffer (\<open>0x00000000\<close>), for the
  one-byte buffer \<open>0x00\<close> (\<open>0x527D5351\<close>) and for the ASCII string 123456789
  (\<open>0xE3069283\<close>), at every alignment.
\<close>

theorem known_answer_complemented:
  "NOT (get_checksum_crc32c INITIAL_CRC mem_addr [] NO) = 0x00000000 \<and>
   NOT (get_checksum_crc32c INITIAL_CRC mem_addr [0x00] NO) = 0x527D5351 \<and>
   NOT (get_checksum_crc32c INITIAL_CRC mem_addr
          [0x31, 0x32, 0x33, 0x34, 0x35, 0x36, 0x37, 0x38, 0x39] NO) = 0xE3069283"
  unfolding get_checksum_crc32c_fold
  by (simp add: INITIAL_CRC_def crc_byte_step_eval crc_bit_step_def)

lemma and_3_take_bit: "(x :: u64) AND 3 = take_bit 2 x"
  by (simp add: take_bit_eq_mask mask_eq_exp_minus_1)

lemma initial_bytes_le_3: "unat (((4 :: u64) - a) AND 3) \<le> 3"
proof -
  have "unat (take_bit 2 (4 - a)) < 2 ^ 2"
    unfolding unsigned_take_bit_eq by (rule take_bit_nat_less_exp)
  then show ?thesis by (simp add: and_3_take_bit)
qed

lemma tb2_diff: "take_bit 2 ((a :: u64) - b) = take_bit 2 (take_bit 2 a - take_bit 2 b)"
  by (simp add: word_uint_eq_iff unsigned_take_bit_eq uint_word_arith_bintrs take_bit_take_bit
      take_bit_diff)

lemma tb2_add: "take_bit 2 ((a :: u64) + b) = take_bit 2 (take_bit 2 a + take_bit 2 b)"
  by (simp add: word_uint_eq_iff unsigned_take_bit_eq uint_word_arith_bintrs take_bit_take_bit
      take_bit_add)

lemma take_bit2_4_minus: "take_bit 2 ((4 :: u64) - a) = take_bit 2 (0 - a)"
proof -
  have "take_bit 2 ((4 :: u64) - a) = take_bit 2 (take_bit 2 (4 :: u64) - take_bit 2 a)"
    by (rule tb2_diff)
  also have "take_bit 2 (4 :: u64) = take_bit 2 0" by simp
  also have "take_bit 2 (take_bit 2 0 - take_bit 2 a) = take_bit 2 (0 - a)"
    by (rule tb2_diff[symmetric])
  finally show ?thesis .
qed

lemma aligned_after_initial_bytes:
  "((a :: u64) + of_nat (unat ((4 - a) AND 3))) AND 3 = 0"
proof -
  have "(a + of_nat (unat ((4 - a) AND 3))) AND 3 = take_bit 2 (a + take_bit 2 (0 - a))"
    by (simp add: and_3_take_bit take_bit2_4_minus)
  also have "\<dots> = take_bit 2 (take_bit 2 a + take_bit 2 (take_bit 2 (0 - a)))"
    by (rule tb2_add)
  also have "\<dots> = take_bit 2 (take_bit 2 a + take_bit 2 (0 - a))"
    by simp
  also have "\<dots> = take_bit 2 (a + (0 - a))"
    by (rule tb2_add[symmetric])
  finally show ?thesis by simp
qed

lemma unaligned_before_initial_bytes:
  assumes "j < unat (((4 :: u64) - a) AND 3)"
  shows "(a + of_nat j) AND 3 \<noteq> 0"
proof
  assume z: "(a + of_nat j) AND 3 = 0"
  have j4: "j < 4" using assms initial_bytes_le_3[of a] by simp
  have "take_bit 2 (of_nat j :: u64) = take_bit 2 ((a + of_nat j) - a)" by simp
  also have "\<dots> = take_bit 2 (take_bit 2 (a + of_nat j) - take_bit 2 a)"
    by (rule tb2_diff)
  also have "take_bit 2 (a + of_nat j) = take_bit 2 0"
    using z by (simp add: and_3_take_bit)
  also have "take_bit 2 (take_bit 2 0 - take_bit 2 a) = take_bit 2 (0 - a)"
    by (rule tb2_diff[symmetric])
  finally have "take_bit 2 (of_nat j :: u64) = (4 - a) AND 3"
    by (simp only: and_3_take_bit take_bit2_4_minus)
  moreover have "take_bit 2 (of_nat j :: u64) = of_nat j"
    using j4 by (simp add: take_bit_of_nat take_bit_nat_eq_self)
  moreover have "unat (of_nat j :: u64) = j"
    using j4 by (simp add: unat_of_nat)
  ultimately have "unat ((4 - a) AND 3) = j" by simp
  with assms show False by simp
qed

lemma crc_byte_step_ucast:
  "crc_byte_step crc c =
     crc_tableil8_o32 ! unat ((crc XOR ucast c) AND 0x000000FF) XOR drop_bit 8 crc"
proof -
  have "(ucast (crc XOR scast c) :: u8) = ucast (crc XOR ucast c)"
    by (rule bit_eqI) (auto simp: bit_simps dest: bit_imp_le_length)
  then have "(crc XOR scast c) AND 0x000000FF = (crc XOR ucast c) AND 0x000000FF"
    by (simp only: low_byte_ucast)
  then show ?thesis by (simp only: crc_byte_step_def)
qed

lemma lane_0_table:
  "slice8_step 0 [0, 0, 0, 0, 0, 0, 0, c] = crc_tableil8_o32 ! unat c \<and>
   crc_byte_step 0 c = crc_tableil8_o32 ! unat c"
proof -
  have "unat c < 256" using unsigned_less[of c] by simp
  then have "crc_tableil8_o32 ! unat c = crc_bits8 (ucast c)"
    by (simp add: o32_nth)
  then show ?thesis
    by (simp add: slice8_step_bytes crc_byte_step_bits8 crc_bits8_0)
qed

lemma NO_neq_YES: "NO \<noteq> YES"
  by (simp add: NO_def YES_def)

lemma bulk_loop_groups:
  "bulk_loop step n crc mem =
     (foldl step crc (map (\<lambda>i. drop (8 * i) mem) [0..<n]), drop (8 * n) mem)"
proof (induction n arbitrary: crc mem)
  case 0
  then show ?case by simp
next
  case (Suc n)
  have u: "[0..<Suc n] = 0 # map Suc [0..<n]"
    by (simp only: map_Suc_upt upt_conv_Cons[OF zero_less_Suc])
  have m: "map (\<lambda>i. drop (8 * i) mem) [0..<Suc n] =
      mem # map (\<lambda>i. drop (8 * i) (drop 8 mem)) [0..<n]"
    unfolding u by (simp add: add.commute)
  have d: "drop (8 * Suc n) mem = drop (8 * n) (drop 8 mem)"
    by (simp add: add.commute)
  show ?case
    by (simp only: bulk_loop.simps Suc.IH m d foldl_Cons)
qed

lemma sw_path_groups:
  "sw_path byte_step group_step icrc mem_addr mem =
     (let initial_bytes = min (length mem) (unat ((4 - mem_addr) AND 3));
          groups = (length mem - initial_bytes) div 8;
          end_bytes = length mem - initial_bytes - 8 * groups
      in foldl byte_step
           (foldl group_step (foldl byte_step icrc (take initial_bytes mem))
              (map (\<lambda>i. drop (initial_bytes + 8 * i) mem) [0..<groups]))
           (drop (length mem - end_bytes) mem))"
proof -
  define ib where "ib = (if length mem < unat ((4 - mem_addr) AND 3) then length mem
     else unat ((4 - mem_addr) AND 3))"
  define rl where "rl = 8 * ((length mem - ib) div 8)"
  have ibm: "min (length mem) (unat ((4 - mem_addr) AND 3)) = ib"
    by (simp add: ib_def min_def)
  have ib: "ib \<le> length mem" by (simp add: ib_def)
  have rl: "rl \<le> length mem - ib" by (simp add: rl_def)
  have rl8: "rl div 8 = (length mem - ib) div 8" by (simp add: rl_def)
  have rl8': "8 * ((length mem - ib) div 8) = rl" by (simp add: rl_def)
  have rl8'': "8 * (rl div 8) = rl" by (simp add: rl_def)
  have g: "(\<lambda>i. drop (8 * i) (drop ib mem)) = (\<lambda>i. drop (ib + 8 * i) mem)"
    by (simp add: add.commute)
  have e: "length mem - ib - rl \<le> length (drop rl (drop ib mem))" by simp
  have e': "take (length mem - ib - rl) (drop rl (drop ib mem)) =
      drop (length mem - (length mem - ib - rl)) mem"
    using ib rl by (simp add: add.commute)
  have "sw_path byte_step group_step icrc mem_addr mem =
      foldl byte_step
        (foldl group_step (foldl byte_step icrc (take ib mem))
           (map (\<lambda>i. drop (ib + 8 * i) mem) [0..<rl div 8]))
        (drop (length mem - (length mem - ib - rl)) mem)"
    unfolding sw_path_def Let_def ib_def[symmetric] rl_def[symmetric]
    by (simp only: byte_loop_fold[OF ib] split_conv bulk_loop_groups rl8'' g
        byte_loop_fold[OF e] e' fst_conv)
  then show ?thesis
    unfolding Let_def ibm rl8 rl8' .
qed

text \<open>
  C4 (prologue and epilogue of the software path). With
  \<open>initial_bytes = min size ((4 - mem) & 3)\<close>: at most three bytes form the prologue;
  after them the pointer is 4-byte aligned unless the whole buffer was consumed, and it is
  not aligned before any earlier prologue byte; fewer than eight bytes remain after the
  8-byte groups. Whatever the step for one byte and the step for one group are, the
  software path applies the byte step to each of the \<open>initial_bytes\<close> leading bytes in
  turn, then the group step at the pointers \<open>mem + initial_bytes + 8 * i\<close> of the
  groups, then the same byte step to each of the trailing bytes. The function runs that
  path with \<open>crc = crc_tableil8_o32[(crc ^ byte) & 0xFF] ^ (crc >> 8)\<close> as the byte
  step and the body of the bulk loop as the group step; and the table of the byte step,
  \<open>crc_tableil8_o32\<close>, is the one the body of the bulk loop applies to the last byte of
  a group (lane 0).
\<close>

theorem software_path_prologue_epilogue:
  "let initial_bytes = min (length mem) (unat ((4 - mem_addr) AND 3));
       groups = (length mem - initial_bytes) div 8;
       end_bytes = length mem - initial_bytes - 8 * groups;
       table_step = (\<lambda>crc (c :: u8).
          crc_tableil8_o32 ! unat ((crc XOR ucast c) AND 0x000000FF) XOR drop_bit 8 crc)
   in initial_bytes \<le> 3 \<and>
      (initial_bytes = length mem \<or> (mem_addr + of_nat initial_bytes) AND 3 = 0) \<and>
      (\<forall>j<initial_bytes. (mem_addr + of_nat j) AND 3 \<noteq> 0) \<and>
      end_bytes < 8 \<and>
      sw_path byte_step group_step icrc mem_addr mem =
        foldl byte_step
          (foldl group_step (foldl byte_step icrc (take initial_bytes mem))
             (map (\<lambda>i. drop (initial_bytes + 8 * i) mem) [0..<groups]))
          (drop (length mem - end_bytes) mem) \<and>
      get_checksum_crc32c icrc mem_addr mem NO =
        sw_path table_step slice8_step icrc mem_addr mem \<and>
      (\<forall>c. slice8_step 0 [0, 0, 0, 0, 0, 0, 0, c] = crc_tableil8_o32 ! unat c \<and>
           table_step 0 c = crc_tableil8_o32 ! unat c)"
proof -
  define ib where "ib = min (length mem) (unat ((4 - mem_addr) AND 3))"
  have 1: "ib \<le> 3"
    using initial_bytes_le_3[of mem_addr] by (simp add: ib_def)
  have 2: "ib = length mem \<or> (mem_addr + of_nat ib) AND 3 = 0"
    using aligned_after_initial_bytes[of mem_addr] by (auto simp: ib_def min_def)
  have 3: "\<forall>j<ib. (mem_addr + of_nat j) AND 3 \<noteq> 0"
    using unaligned_before_initial_bytes[of _ mem_addr] by (simp add: ib_def)
  have 4: "length mem - ib - 8 * ((length mem - ib) div 8) < 8"
    by (simp add: minus_mult_div_eq_mod)
  have s: "crc_byte_step = (\<lambda>crc c.
          crc_tableil8_o32 ! unat ((crc XOR ucast c) AND 0x000000FF) XOR drop_bit 8 crc)"
    by (intro ext) (rule crc_byte_step_ucast)
  have 5: "sw_path byte_step group_step icrc mem_addr mem =
        foldl byte_step
          (foldl group_step (foldl byte_step icrc (take ib mem))
             (map (\<lambda>i. drop (ib + 8 * i) mem) [0..<(length mem - ib) div 8]))
          (drop (length mem - (length mem - ib - 8 * ((length mem - ib) div 8))) mem)"
    using sw_path_groups[of byte_step group_step icrc mem_addr mem]
    by (simp only: Let_def ib_def)
  have 6: "get_checksum_crc32c icrc mem_addr mem NO =
      sw_path crc_byte_step slice8_step icrc mem_addr mem"
    using NO_neq_YES by (simp only: get_checksum_crc32c_def if_False)
  have 7: "\<forall>c. slice8_step 0 [0, 0, 0, 0, 0, 0, 0, c] = crc_tableil8_o32 ! unat c \<and>
           crc_byte_step 0 c = crc_tableil8_o32 ! unat c"
    using lane_0_table by blast
  show ?thesis
    unfolding Let_def ib_def[symmetric] s[symmetric]
    using 1 2 3 4 5 6 7 by (intro conjI)
qed

theorem software_path_prologue_epilogue_witness:
  "let table_step = (\<lambda>crc (c :: u8).
          crc_tableil8_o32 ! unat ((crc XOR ucast c) AND 0x000000FF) XOR drop_bit 8 crc)
   in ((1 :: u64) + of_nat 2) AND 3 \<noteq> 0 \<and> ((1 :: u64) + of_nat 3) AND 3 = 0 \<and>
      sw_path table_step slice8_step INITIAL_CRC 1 [1, 2, 3, 4, 5, 6, 7, 8, 9, 10, 11, 12] =
        foldl table_step
          (foldl slice8_step (foldl table_step INITIAL_CRC [1, 2, 3])
             [[4, 5, 6, 7, 8, 9, 10, 11, 12]])
          [12] \<and>
      get_checksum_crc32c INITIAL_CRC 1 [1, 2, 3, 4, 5, 6, 7, 8, 9, 10, 11, 12] NO =
        sw_path table_step slice8_step INITIAL_CRC 1 [1, 2, 3, 4, 5, 6, 7, 8, 9, 10, 11, 12]"
proof -
  define mem :: "u8 list" where "mem = [1, 2, 3, 4, 5, 6, 7, 8, 9, 10, 11, 12]"
  define table_step :: "u32 \<Rightarrow> u8 \<Rightarrow> u32" where "table_step = (\<lambda>crc c.
          crc_tableil8_o32 ! unat ((crc XOR ucast c) AND 0x000000FF) XOR drop_bit 8 crc)"
  have ib: "min (length mem) (unat ((4 - 1 :: u64) AND 3)) = 3"
    by (simp add: mem_def)
  have g: "(length mem - 3) div 8 = 1"
    by (simp add: mem_def)
  have p: "take 3 mem = [1, 2, 3]"
    "map (\<lambda>i. drop (3 + 8 * i) mem) [0..<1] = [[4, 5, 6, 7, 8, 9, 10, 11, 12]]"
    "drop (length mem - (length mem - 3 - 8 * 1)) mem = [12]"
    by (simp_all add: mem_def)
  have j: "(2 :: nat) < 3" by simp
  note t = software_path_prologue_epilogue[where mem = mem and mem_addr = 1
      and icrc = INITIAL_CRC and byte_step = table_step and group_step = slice8_step,
      unfolded Let_def ib g p, folded table_step_def]
  from t have a: "\<forall>j<3. ((1 :: u64) + of_nat j) AND 3 \<noteq> 0" by blast
  from a j have b: "((1 :: u64) + of_nat 2) AND 3 \<noteq> 0" by blast
  from t have c: "((1 :: u64) + of_nat 3) AND 3 = 0" by (simp add: mem_def)
  note d = t[THEN conjunct2, THEN conjunct2, THEN conjunct2, THEN conjunct2, THEN conjunct1]
  note e = t[THEN conjunct2, THEN conjunct2, THEN conjunct2, THEN conjunct2, THEN conjunct2,
      THEN conjunct1]
  show ?thesis unfolding Let_def table_step_def[symmetric]
    using b c d[unfolded mem_def] e[unfolded mem_def] by (intro conjI)
qed







lemma strlen_append: "0 \<notin> set s \<Longrightarrow> strlen (s @ 0 # rest) = length s"
  by (induction s) auto

text \<open>
  C6 (string adapter). For a string whose bytes \<open>s\<close> contain no NUL and are followed by
  the terminating NUL, \<open>strlen\<close> is the length of \<open>s\<close> and
  \<open>get_str_checksum_crc32c\<close> is \<open>get_checksum_crc32c\<close> from \<open>INITIAL_CRC\<close> over
  \<open>s\<close>, the terminator excluded; for the empty string it is the checksum of the
  zero-length buffer.
\<close>

theorem string_adapter:
  assumes "0 \<notin> set s"
  shows "strlen (s @ 0 # rest) = length s \<and>
    get_str_checksum_crc32c str_addr (s @ 0 # rest) have_hw_crc32 =
      get_checksum_crc32c INITIAL_CRC str_addr s have_hw_crc32 \<and>
    get_str_checksum_crc32c str_addr (0 # rest) have_hw_crc32 =
      get_checksum_crc32c INITIAL_CRC str_addr [] have_hw_crc32"
  using assms by (simp add: get_str_checksum_crc32c_def strlen_append)

theorem string_adapter_witness:
  "0 \<notin> set [0x61, 0x62, 0x63 :: u8] \<and>
   get_str_checksum_crc32c 0 [0x61, 0x62, 0x63, 0] NO =
     get_checksum_crc32c INITIAL_CRC 0 [0x61, 0x62, 0x63] NO \<and>
   get_str_checksum_crc32c 0 [0] NO = get_checksum_crc32c INITIAL_CRC 0 [] NO"
proof -
  have h: "0 \<notin> set [0x61, 0x62, 0x63 :: u8]" by simp
  show ?thesis
    using h string_adapter[OF h, of "[]" 0 NO] by simp
qed

section \<open>Properties of get_file_checksum_crc32c\<close>


lemma read_fd_shape:
  "\<exists>n data fd1. read_fd fd count = (n, data, fd1) \<and> log fd1 = log fd @ [(count, n)] \<and>
     content fd = data @ content fd1 \<and> set (script fd1) \<subseteq> set (script fd) \<and>
     (n = - 1 \<and> data = [] \<and> None \<in> set (script fd) \<or>
      n = int (length data) \<and> length data \<le> count)"
proof -
  have t: "xs = take m xs @ drop (length (take m xs)) xs" for m and xs :: "u8 list"
    by (cases "m \<le> length xs") simp_all
  show ?thesis
  proof (cases "script fd")
    case Nil
    then show ?thesis
      using t[of "content fd" count] by (simp add: read_fd_def Let_def)
  next
    case (Cons x rest)
    then show ?thesis
      using t[of "content fd" "min count (the x)"]
      by (cases x) (auto simp: read_fd_def Let_def)
  qed
qed

lemma store_0_take: "take (length data) (store buffer 0 data) = data"
  by (simp add: store_def)

lemma read_loop_trace:
  assumes B: "0 < B"
  shows "\<exists>ret crc' buf' fd' consumed k r.
     read_loop a B hw fd buffer crc = Some (ret, crc', buf', fd') \<and>
     content fd = consumed @ content fd' \<and>
     crc' = foldl crc_byte_step crc consumed \<and>
     log fd' = log fd @ replicate k (nat B, B) @ [(nat B, r)] \<and> r < B \<and>
     (r = - 1 \<and> ret = INCORRECT \<and> None \<in> set (script fd) \<and>
        int (length consumed) = int k * B \<or>
      0 \<le> r \<and> ret = SUCCESS \<and> int (length consumed) = int k * B + r)"
proof (induction "length (content fd)" arbitrary: fd buffer crc rule: less_induct)
  case less
  obtain n data fd1 where r: "read_fd fd (nat B) = (n, data, fd1)"
    and l: "log fd1 = log fd @ [(nat B, n)]"
    and c: "content fd = data @ content fd1"
    and s: "set (script fd1) \<subseteq> set (script fd)"
    and n: "n = - 1 \<and> data = [] \<and> None \<in> set (script fd) \<or>
      n = int (length data) \<and> length data \<le> nat B"
    using read_fd_shape[of fd "nat B"] by blast
  have u: "read_loop a B hw fd buffer crc =
     (let buffer1 = store buffer 0 data in
           if n > 0 then
             (let crc1 = get_checksum_crc32c crc a (take (nat n) buffer1) hw
              in if n = B
                 then read_loop a B hw fd1 buffer1 crc1
                 else Some (SUCCESS, crc1, buffer1, fd1))
           else if n = - 1 then Some (INCORRECT, crc, buffer1, fd1)
           else if n = B
                then read_loop a B hw fd1 buffer1 crc
                else Some (SUCCESS, crc, buffer1, fd1))"
    by (subst read_loop.simps) (simp only: r split_conv)
  from \<open>n = - 1 \<and> data = [] \<and> None \<in> set (script fd) \<or>
      n = int (length data) \<and> length data \<le> nat B\<close>
  consider (fail) "n = - 1" "data = []" "None \<in> set (script fd)"
    | (full) "n = int (length data)" "n = B"
    | (short) "n = int (length data)" "n < B"
    using B by fastforce
  then show ?case
  proof cases
    case fail
    have "read_loop a B hw fd buffer crc = Some (INCORRECT, crc, store buffer 0 data, fd1)"
      unfolding u using B fail by simp
    then show ?thesis
      using fail c l B
      by - (rule exI[of _ INCORRECT],
          rule exI[of _ crc],
          rule exI[of _ "store buffer 0 data"],
          rule exI[of _ fd1],
          rule exI[of _ "[]"],
          rule exI[of _ 0],
          rule exI[of _ "- 1"],
          simp)
  next
    case short
    have e: "read_loop a B hw fd buffer crc =
        Some (SUCCESS, foldl crc_byte_step crc data, store buffer 0 data, fd1)"
      unfolding u using B short
      by (auto simp: Let_def get_checksum_crc32c_fold store_0_take)
    show ?thesis
      using short c l B e
      by - (rule exI[of _ SUCCESS],
          rule exI[of _ "foldl crc_byte_step crc data"],
          rule exI[of _ "store buffer 0 data"],
          rule exI[of _ fd1],
          rule exI[of _ data],
          rule exI[of _ 0],
          rule exI[of _ n],
          simp)
  next
    case full
    have d: "length (content fd1) < length (content fd)"
      using full B c by simp
    have e: "read_loop a B hw fd buffer crc =
        read_loop a B hw fd1 (store buffer 0 data) (foldl crc_byte_step crc data)"
      unfolding u using B full
      by (auto simp: Let_def get_checksum_crc32c_fold store_0_take)
    from less[OF d, of "store buffer 0 data" "foldl crc_byte_step crc data"]
    obtain ret crc' buf' fd' consumed k r where
      1: "read_loop a B hw fd1 (store buffer 0 data) (foldl crc_byte_step crc data) =
            Some (ret, crc', buf', fd')"
      and 2: "content fd1 = consumed @ content fd'"
      and 3: "crc' = foldl crc_byte_step (foldl crc_byte_step crc data) consumed"
      and 4: "log fd' = log fd1 @ replicate k (nat B, B) @ [(nat B, r)]"
      and 5: "r < B"
      and 6: "r = - 1 \<and> ret = INCORRECT \<and> None \<in> set (script fd1) \<and>
                int (length consumed) = int k * B \<or>
              0 \<le> r \<and> ret = SUCCESS \<and> int (length consumed) = int k * B + r"
      by blast
    have l4: "log fd' = log fd @ replicate (Suc k) (nat B, B) @ [(nat B, r)]"
      using 4 l full by simp
    have l6: "r = - 1 \<and> ret = INCORRECT \<and> None \<in> set (script fd) \<and>
                int (length (data @ consumed)) = int (Suc k) * B \<or>
              0 \<le> r \<and> ret = SUCCESS \<and> int (length (data @ consumed)) = int (Suc k) * B + r"
      using 6 s full by (auto simp: algebra_simps)
    show ?thesis
      using e 1 2 3 l4 5 l6 c
      by - (rule exI[of _ ret],
          rule exI[of _ crc'],
          rule exI[of _ buf'],
          rule exI[of _ fd'],
          rule exI[of _ "data @ consumed"],
          rule exI[of _ "Suc k"],
          rule exI[of _ r],
          simp)
  qed
qed


lemma store_take:
  "n \<le> length buffer \<Longrightarrow> take (n + length data) (store buffer n data) = take n buffer @ data"
  by (simp add: store_def)

lemma get_file_checksum_crc32c_trace:
  assumes o: "0 \<le> offset" "offset \<le> B" and B: "0 < B" and lb: "length buffer = nat B"
  shows "\<exists>ret crc buf' fd' consumed k r.
     get_file_checksum_crc32c fd a buffer B offset hw = Some (ret, crc, buf', fd') \<and>
     content fd = consumed @ content fd' \<and>
     (log fd' = log fd @ [(nat (B - offset), r)] \<and> r < B - offset \<and>
        (r = - 1 \<and> ret = INCORRECT \<and> crc = INITIAL_CRC \<and> consumed = [] \<and>
           None \<in> set (script fd) \<or>
         0 \<le> r \<and> ret = SUCCESS \<and> int (length consumed) = r \<and>
           crc = foldl crc_byte_step INITIAL_CRC (take (nat offset) buffer @ consumed)) \<or>
      log fd' = log fd @ (nat (B - offset), B - offset) # replicate k (nat B, B) @ [(nat B, r)] \<and>
        r < B \<and>
        crc = foldl crc_byte_step INITIAL_CRC (take (nat offset) buffer @ consumed) \<and>
        (r = - 1 \<and> ret = INCORRECT \<and> None \<in> set (script fd) \<and>
           int (length consumed) = B - offset + int k * B \<or>
         0 \<le> r \<and> ret = SUCCESS \<and> int (length consumed) = B - offset + int k * B + r))"
proof -
  obtain n data fd1 where r: "read_fd fd (nat (B - offset)) = (n, data, fd1)"
    and l: "log fd1 = log fd @ [(nat (B - offset), n)]"
    and c: "content fd = data @ content fd1"
    and s: "set (script fd1) \<subseteq> set (script fd)"
    and n: "n = - 1 \<and> data = [] \<and> None \<in> set (script fd) \<or>
      n = int (length data) \<and> length data \<le> nat (B - offset)"
    using read_fd_shape[of fd "nat (B - offset)"] by blast
  define buffer1 where "buffer1 = store buffer (nat offset) data"
  define crc1 where "crc1 = foldl crc_byte_step INITIAL_CRC (take (nat offset) buffer @ data)"
  have u: "get_file_checksum_crc32c fd a buffer B offset hw =
     (if n \<ge> 0 then
        (if n + offset = B
         then read_loop a B hw fd1 buffer1
                (get_checksum_crc32c INITIAL_CRC a (take (nat (n + offset)) buffer1) hw)
         else Some (SUCCESS, get_checksum_crc32c INITIAL_CRC a (take (nat (n + offset)) buffer1) hw,
                 buffer1, fd1))
      else if n = - 1 then Some (INCORRECT, INITIAL_CRC, buffer1, fd1)
      else if n = B then read_loop a B hw fd1 buffer1 INITIAL_CRC
      else Some (SUCCESS, INITIAL_CRC, buffer1, fd1))"
    unfolding get_file_checksum_crc32c_def Let_def buffer1_def
    by (simp only: r split_conv)
  from n consider (fail) "n = - 1" "data = []" "None \<in> set (script fd)"
    | (short) "n = int (length data)" "n < B - offset"
    | (full) "n = int (length data)" "n = B - offset"
    using o by fastforce
  then show ?thesis
  proof cases
    case fail
    have "get_file_checksum_crc32c fd a buffer B offset hw =
        Some (INCORRECT, INITIAL_CRC, buffer1, fd1)"
      unfolding u using fail by simp
    then show ?thesis
      using fail c l o
      by - (rule exI[of _ INCORRECT],
          rule exI[of _ INITIAL_CRC],
          rule exI[of _ buffer1],
          rule exI[of _ fd1],
          rule exI[of _ "[]"],
          rule exI[of _ 0],
          rule exI[of _ "- 1"],
          simp)
  next
    case short
    have t: "take (nat (int (length data) + offset)) buffer1 = take (nat offset) buffer @ data"
      using store_take[of "nat offset" buffer data] o lb short
      by (simp add: buffer1_def nat_add_distrib add.commute)
    have "get_file_checksum_crc32c fd a buffer B offset hw = Some (SUCCESS, crc1, buffer1, fd1)"
      unfolding u using short by (simp add: t get_checksum_crc32c_fold crc1_def)
    then show ?thesis
      using short c l o
      by - (rule exI[of _ SUCCESS],
          rule exI[of _ crc1],
          rule exI[of _ buffer1],
          rule exI[of _ fd1],
          rule exI[of _ data],
          rule exI[of _ 0],
          rule exI[of _ n],
          simp add: crc1_def)
  next
    case full
    have t: "take (nat (int (length data) + offset)) buffer1 = take (nat offset) buffer @ data"
      using store_take[of "nat offset" buffer data] o lb full
      by (simp add: buffer1_def nat_add_distrib add.commute)
    have e: "get_file_checksum_crc32c fd a buffer B offset hw =
        read_loop a B hw fd1 buffer1 crc1"
      unfolding u using full o by (simp add: t get_checksum_crc32c_fold crc1_def)
    from read_loop_trace[OF B, of a hw fd1 buffer1 crc1]
    obtain ret crc' buf' fd' consumed k r where
      1: "read_loop a B hw fd1 buffer1 crc1 = Some (ret, crc', buf', fd')"
      and 2: "content fd1 = consumed @ content fd'"
      and 3: "crc' = foldl crc_byte_step crc1 consumed"
      and 4: "log fd' = log fd1 @ replicate k (nat B, B) @ [(nat B, r)]"
      and 5: "r < B"
      and 6: "r = - 1 \<and> ret = INCORRECT \<and> None \<in> set (script fd1) \<and>
                int (length consumed) = int k * B \<or>
              0 \<le> r \<and> ret = SUCCESS \<and> int (length consumed) = int k * B + r"
      by blast
    have l4: "log fd' = log fd @ (nat (B - offset), B - offset) # replicate k (nat B, B) @
        [(nat B, r)]"
      using 4 l full by simp
    have l3: "crc' = foldl crc_byte_step INITIAL_CRC (take (nat offset) buffer @ data @ consumed)"
      using 3 by (simp add: crc1_def)
    have l6: "r = - 1 \<and> ret = INCORRECT \<and> None \<in> set (script fd) \<and>
                int (length (data @ consumed)) = B - offset + int k * B \<or>
              0 \<le> r \<and> ret = SUCCESS \<and>
                int (length (data @ consumed)) = B - offset + int k * B + r"
      using 6 s full by auto
    show ?thesis
      using e 1 2 l3 l4 5 l6 c
      by - (rule exI[of _ ret],
          rule exI[of _ crc'],
          rule exI[of _ buf'],
          rule exI[of _ fd'],
          rule exI[of _ "data @ consumed"],
          rule exI[of _ k],
          rule exI[of _ r],
          simp)
  qed
qed

lemma get_file_checksum_crc32c_log:
  assumes o: "0 \<le> offset" "offset \<le> B" and B: "0 < B" and lb: "length buffer = nat B"
  shows "\<exists>ret crc buf' fd' consumed es.
     get_file_checksum_crc32c fd a buffer B offset hw = Some (ret, crc, buf', fd') \<and>
     content fd = consumed @ content fd' \<and>
     log fd' = log fd @ es \<and> es \<noteq> [] \<and>
     map fst es = nat (B - offset) # replicate (length es - 1) (nat B) \<and>
     (\<forall>e\<in>set (butlast es). snd e = int (fst e)) \<and>
     (snd (last es) = - 1 \<and> ret = INCORRECT \<and> None \<in> set (script fd) \<or>
      0 \<le> snd (last es) \<and> snd (last es) < int (fst (last es)) \<and> ret = SUCCESS) \<and>
     (snd (hd es) = - 1 \<and> ret = INCORRECT \<and> crc = INITIAL_CRC \<and> consumed = [] \<or>
      0 \<le> snd (hd es) \<and>
        crc = get_checksum_crc32c INITIAL_CRC a (take (nat offset) buffer @ consumed) hw)"
proof -
  from get_file_checksum_crc32c_trace[OF o B lb, of fd a hw]
  obtain ret crc buf' fd' consumed k r where
    1: "get_file_checksum_crc32c fd a buffer B offset hw = Some (ret, crc, buf', fd')"
    and 2: "content fd = consumed @ content fd'"
    and 3: "log fd' = log fd @ [(nat (B - offset), r)] \<and> r < B - offset \<and>
        (r = - 1 \<and> ret = INCORRECT \<and> crc = INITIAL_CRC \<and> consumed = [] \<and>
           None \<in> set (script fd) \<or>
         0 \<le> r \<and> ret = SUCCESS \<and> int (length consumed) = r \<and>
           crc = foldl crc_byte_step INITIAL_CRC (take (nat offset) buffer @ consumed)) \<or>
      log fd' = log fd @ (nat (B - offset), B - offset) # replicate k (nat B, B) @ [(nat B, r)] \<and>
        r < B \<and>
        crc = foldl crc_byte_step INITIAL_CRC (take (nat offset) buffer @ consumed) \<and>
        (r = - 1 \<and> ret = INCORRECT \<and> None \<in> set (script fd) \<and>
           int (length consumed) = B - offset + int k * B \<or>
         0 \<le> r \<and> ret = SUCCESS \<and> int (length consumed) = B - offset + int k * B + r)"
    by blast
  from 3 show ?thesis
  proof (elim disjE conjE)
    assume "log fd' = log fd @ [(nat (B - offset), r)]" "r < B - offset"
      "r = - 1" "ret = INCORRECT" "crc = INITIAL_CRC" "consumed = []" "None \<in> set (script fd)"
    then show ?thesis
      using 1 2
      by - (rule exI[of _ ret],
          rule exI[of _ crc],
          rule exI[of _ buf'],
          rule exI[of _ fd'],
          rule exI[of _ consumed],
          rule exI[of _ "[(nat (B - offset), r)]"],
          simp)
  next
    assume "log fd' = log fd @ [(nat (B - offset), r)]" "r < B - offset"
      "0 \<le> r" "ret = SUCCESS"
      "crc = foldl crc_byte_step INITIAL_CRC (take (nat offset) buffer @ consumed)"
    then show ?thesis
      using 1 2 o
      by - (rule exI[of _ ret],
          rule exI[of _ crc],
          rule exI[of _ buf'],
          rule exI[of _ fd'],
          rule exI[of _ consumed],
          rule exI[of _ "[(nat (B - offset), r)]"],
          simp add: get_checksum_crc32c_fold)
  next
    assume "log fd' = log fd @ (nat (B - offset), B - offset) # replicate k (nat B, B) @
        [(nat B, r)]" "r < B"
      "crc = foldl crc_byte_step INITIAL_CRC (take (nat offset) buffer @ consumed)"
      "r = - 1" "ret = INCORRECT" "None \<in> set (script fd)"
    then show ?thesis
      using 1 2 o B
      by - (rule exI[of _ ret],
          rule exI[of _ crc],
          rule exI[of _ buf'],
          rule exI[of _ fd'],
          rule exI[of _ consumed],
          rule exI[of _ "(nat (B - offset), B - offset) # replicate k (nat B, B) @ [(nat B, r)]"],
          simp add: get_checksum_crc32c_fold butlast_append replicate_append_same)
  next
    assume "log fd' = log fd @ (nat (B - offset), B - offset) # replicate k (nat B, B) @
        [(nat B, r)]" "r < B"
      "crc = foldl crc_byte_step INITIAL_CRC (take (nat offset) buffer @ consumed)"
      "0 \<le> r" "ret = SUCCESS"
    then show ?thesis
      using 1 2 o B
      by - (rule exI[of _ ret],
          rule exI[of _ crc],
          rule exI[of _ buf'],
          rule exI[of _ fd'],
          rule exI[of _ consumed],
          rule exI[of _ "(nat (B - offset), B - offset) # replicate k (nat B, B) @ [(nat B, r)]"],
          simp add: get_checksum_crc32c_fold butlast_append replicate_append_same)
  qed
qed


lemma whole_buffer_file:
  assumes B: "0 < B" and lb: "length buffer = nat B" and s: "script fd = []"
    and lc: "length (content fd) = nat B"
  shows "get_file_checksum_crc32c fd a buffer B 0 hw =
     Some (SUCCESS, get_checksum_crc32c INITIAL_CRC a (content fd) hw, content fd,
           fd\<lparr>content := [], log := log fd @ [(nat B, B), (nat B, 0)]\<rparr>)"
  unfolding get_file_checksum_crc32c_def
  apply (subst read_loop.simps)
  using B lb s lc
  apply (simp add: read_fd_def store_def Let_def)
  done

lemma read_loop_zero:
  assumes "read_loop a B hw fd buffer crc = Some y"
  shows "B = 0 \<longrightarrow> (\<exists>buf' fd' k. y = (INCORRECT, crc, buf', fd') \<and> content fd' = content fd \<and>
      log fd' = log fd @ replicate k (0, 0) @ [(0, - 1)] \<and> None \<in> set (script fd))"
proof (rule read_loop.raw_induct[where P = "\<lambda>a B hw fd buffer crc y.
    B = 0 \<longrightarrow> (\<exists>buf' fd' k. y = (INCORRECT, crc, buf', fd') \<and> content fd' = content fd \<and>
      log fd' = log fd @ replicate k (0, 0) @ [(0, - 1)] \<and> None \<in> set (script fd))",
    OF _ assms], goal_cases)
  case (1 loop a B hw fd buffer crc y)
  show ?case
  proof
    assume B: "B = 0"
    obtain n data fd1 where r: "read_fd fd (nat B) = (n, data, fd1)"
      and l: "log fd1 = log fd @ [(nat B, n)]"
      and c: "content fd = data @ content fd1"
      and s: "set (script fd1) \<subseteq> set (script fd)"
      and n: "n = - 1 \<and> data = [] \<and> None \<in> set (script fd) \<or>
        n = int (length data) \<and> length data \<le> nat B"
      using read_fd_shape[of fd "nat B"] by blast
    from n B consider (fail) "n = - 1" "data = []" "None \<in> set (script fd)"
      | (zero) "n = 0" "data = []"
      by fastforce
    then show "\<exists>buf' fd' k. y = (INCORRECT, crc, buf', fd') \<and> content fd' = content fd \<and>
      log fd' = log fd @ replicate k (0, 0) @ [(0, - 1)] \<and> None \<in> set (script fd)"
    proof cases
      case fail
      from 1(2)[unfolded r split_conv] have "y = (INCORRECT, crc, store buffer 0 data, fd1)"
        using fail by (simp add: Let_def)
      then show ?thesis
        using fail c l B
        by - (rule exI[of _ "store buffer 0 data"], rule exI[of _ fd1], rule exI[of _ 0], simp)
    next
      case zero
      from 1(2)[unfolded r split_conv]
      have "loop a B hw fd1 (store buffer 0 data) crc = Some y"
        using zero B by (simp add: Let_def)
      from 1(1)[OF this] B obtain buf' fd' k where
        y: "y = (INCORRECT, crc, buf', fd')" and c': "content fd' = content fd1"
        and l': "log fd' = log fd1 @ replicate k (0, 0) @ [(0, - 1)]"
        and s': "None \<in> set (script fd1)"
        by blast
      show ?thesis
        using y c' l' s' s c l zero B
        by - (rule exI[of _ buf'], rule exI[of _ fd'], rule exI[of _ "Suc k"], auto)
    qed
  qed
qed

lemma read_loop_never_returns:
  "read_loop a 0 hw \<lparr>content = [], script = [], log = l\<rparr> buffer crc = None"
proof (cases "read_loop a 0 hw \<lparr>content = [], script = [], log = l\<rparr> buffer crc")
  case None
  then show ?thesis .
next
  case (Some y)
  from read_loop_zero[OF Some] show ?thesis by simp
qed


lemma get_file_checksum_crc32c_zero:
  assumes res: "get_file_checksum_crc32c fd a [] 0 0 hw = Some (ret, crc, buf', fd')"
  shows "\<exists>k. ret = INCORRECT \<and> crc = INITIAL_CRC \<and> content fd' = content fd \<and>
     log fd' = log fd @ replicate k (0, 0) @ [(0, - 1)] \<and> None \<in> set (script fd)"
proof -
  obtain n data fd1 where r: "read_fd fd (nat (0 - 0)) = (n, data, fd1)"
    and l: "log fd1 = log fd @ [(nat (0 - 0), n)]"
    and c: "content fd = data @ content fd1"
    and s: "set (script fd1) \<subseteq> set (script fd)"
    and n: "n = - 1 \<and> data = [] \<and> None \<in> set (script fd) \<or>
      n = int (length data) \<and> length data \<le> nat (0 - 0)"
    using read_fd_shape[of fd "nat (0 - 0)"] by blast
  from n consider (fail) "n = - 1" "data = []" "None \<in> set (script fd)"
    | (zero) "n = 0" "data = []"
    by fastforce
  then show ?thesis
  proof cases
    case fail
    from res[unfolded get_file_checksum_crc32c_def Let_def r split_conv]
    have "(ret, crc, buf', fd') = (INCORRECT, INITIAL_CRC, store [] (nat 0) data, fd1)"
      using fail by simp
    then show ?thesis
      using fail c l by - (rule exI[of _ 0], simp)
  next
    case zero
    from res[unfolded get_file_checksum_crc32c_def Let_def r split_conv]
    have "read_loop a 0 hw fd1 (store [] (nat 0) data) INITIAL_CRC = Some (ret, crc, buf', fd')"
      using zero by (simp add: get_checksum_crc32c_fold store_def)
    from read_loop_zero[OF this] obtain k where
      "ret = INCORRECT" "crc = INITIAL_CRC" "content fd' = content fd1"
      "log fd' = log fd1 @ replicate k (0, 0) @ [(0, - 1)]" "None \<in> set (script fd1)"
      by auto
    then show ?thesis
      using zero c l s by - (rule exI[of _ "Suc k"], auto)
  qed
qed

lemma get_file_checksum_crc32c_returns:
  assumes o: "0 \<le> offset" "offset \<le> B" and lb: "length buffer = nat B"
    and res: "get_file_checksum_crc32c fd a buffer B offset hw = Some (ret, crc, buf', fd')"
  shows "\<exists>consumed es.
     content fd = consumed @ content fd' \<and>
     log fd' = log fd @ es \<and> es \<noteq> [] \<and>
     map fst es = nat (B - offset) # replicate (length es - 1) (nat B) \<and>
     (\<forall>e\<in>set (butlast es). snd e = int (fst e)) \<and>
     (snd (last es) = - 1 \<and> ret = INCORRECT \<and> None \<in> set (script fd) \<or>
      0 \<le> snd (last es) \<and> snd (last es) < int (fst (last es)) \<and> ret = SUCCESS) \<and>
     (snd (hd es) = - 1 \<and> ret = INCORRECT \<and> crc = INITIAL_CRC \<and> consumed = [] \<or>
      0 \<le> snd (hd es) \<and>
        crc = get_checksum_crc32c INITIAL_CRC a (take (nat offset) buffer @ consumed) hw)"
proof (cases "0 < B")
  case True
  from get_file_checksum_crc32c_log[OF o True lb, of fd a hw] res
  show ?thesis by auto
next
  case False
  with o have z: "B = 0" "offset = 0" "buffer = []" using lb by auto
  from get_file_checksum_crc32c_zero[OF res[unfolded z]] obtain k where
    k: "ret = INCORRECT" "crc = INITIAL_CRC" "content fd' = content fd"
      "log fd' = log fd @ replicate k (0, 0) @ [(0, - 1)]" "None \<in> set (script fd)"
    by auto
  show ?thesis
    using k z
    by - (rule exI[of _ "[]"], rule exI[of _ "replicate k (0, 0) @ [(0, - 1)]"],
        cases k, auto simp: get_checksum_crc32c_fold butlast_append replicate_append_same)
qed

lemma get_file_checksum_crc32c_terminates:
  assumes "0 \<le> offset" "offset \<le> B" "0 < B" "length buffer = nat B"
  shows "\<exists>y. get_file_checksum_crc32c fd a buffer B offset hw = Some y"
  using get_file_checksum_crc32c_log[OF assms, of fd a hw] by blast

lemma get_file_checksum_crc32c_never_returns:
  "get_file_checksum_crc32c \<lparr>content = [], script = [], log = []\<rparr> a [] 0 0 hw = None"
proof (cases "get_file_checksum_crc32c \<lparr>content = [], script = [], log = []\<rparr> a [] 0 0 hw")
  case None
  then show ?thesis .
next
  case (Some y)
  obtain ret crc buf' fd' where y: "y = (ret, crc, buf', fd')" by (cases y) auto
  from get_file_checksum_crc32c_zero[OF Some[unfolded y]] show ?thesis by simp
qed

text \<open>
  C7 (fold and termination of the file adapter). The claim that a file of exactly
  \<open>buf_size\<close> bytes read with \<open>offset = 0\<close> takes exactly two reads and returns
  \<open>SUCCESS\<close> fails for \<open>buf_size = 0\<close>: on the empty file every read asks for no byte
  and returns 0, which equals \<open>buf_size\<close>, so the loop condition
  \<open>bytes_read == buf_size\<close> holds after every read and the function never returns.
\<close>

theorem file_adapter_zero_buffer_counterexample:
  "get_file_checksum_crc32c \<lparr>content = [], script = [], log = []\<rparr> 0 [] 0 0 NO = None"
  by (rule get_file_checksum_crc32c_never_returns)

text \<open>
  C7, as amended. For \<open>0 \<le> offset \<le> buf_size\<close> and a buffer of \<open>buf_size > 0\<close>
  bytes the function returns; its first read asks for \<open>buf_size - offset\<close> bytes and
  every later one for \<open>buf_size\<close>; every read but the last returns exactly what was
  asked for, so that each fold but the last consumed a full \<open>buf_size\<close> bytes; the
  last read returns less and the result is \<open>SUCCESS\<close>, or it fails and the result is
  \<open>INCORRECT\<close>; unless the first read failed, \<open>*crc\<close> is the checksum, from
  \<open>INITIAL_CRC\<close>, of the \<open>offset\<close> bytes already in the buffer followed by all bytes
  read. In particular, for a file of exactly \<open>buf_size\<close> bytes with \<open>offset = 0\<close>
  it issues exactly two reads, the second returning 0, returns \<open>SUCCESS\<close>, and
  \<open>*crc\<close> is the single-call checksum of the file content.
\<close>

theorem file_adapter_fold:
  assumes "0 \<le> offset" "offset \<le> buf_size" "0 < buf_size" "length buffer = nat buf_size"
  shows "(\<exists>ret crc buf' fd' consumed es.
      get_file_checksum_crc32c fd buffer_addr buffer buf_size offset have_hw_crc32 =
        Some (ret, crc, buf', fd') \<and>
      content fd = consumed @ content fd' \<and>
      log fd' = log fd @ es \<and> es \<noteq> [] \<and>
      map fst es = nat (buf_size - offset) # replicate (length es - 1) (nat buf_size) \<and>
      (\<forall>e\<in>set (butlast es). snd e = int (fst e)) \<and>
      (snd (last es) = - 1 \<and> ret = INCORRECT \<and> None \<in> set (script fd) \<or>
       0 \<le> snd (last es) \<and> snd (last es) < int (fst (last es)) \<and> ret = SUCCESS) \<and>
      (snd (hd es) = - 1 \<or>
       crc = get_checksum_crc32c INITIAL_CRC buffer_addr (take (nat offset) buffer @ consumed)
               have_hw_crc32)) \<and>
    (offset = 0 \<and> script fd = [] \<and> length (content fd) = nat buf_size \<longrightarrow>
      get_file_checksum_crc32c fd buffer_addr buffer buf_size offset have_hw_crc32 =
        Some (SUCCESS,
              get_checksum_crc32c INITIAL_CRC buffer_addr (content fd) have_hw_crc32,
              content fd,
              fd\<lparr>content := [],
                 log := log fd @ [(nat buf_size, buf_size), (nat buf_size, 0)]\<rparr>))"
proof (rule conjI)
  from get_file_checksum_crc32c_log[OF assms, of fd buffer_addr have_hw_crc32]
  obtain ret crc buf' fd' consumed es where
    1: "get_file_checksum_crc32c fd buffer_addr buffer buf_size offset have_hw_crc32 =
          Some (ret, crc, buf', fd')"
    and 2: "content fd = consumed @ content fd'"
    and 3: "log fd' = log fd @ es" "es \<noteq> []"
      "map fst es = nat (buf_size - offset) # replicate (length es - 1) (nat buf_size)"
      "\<forall>e\<in>set (butlast es). snd e = int (fst e)"
    and 4: "snd (last es) = - 1 \<and> ret = INCORRECT \<and> None \<in> set (script fd) \<or>
      0 \<le> snd (last es) \<and> snd (last es) < int (fst (last es)) \<and> ret = SUCCESS"
    and 5: "snd (hd es) = - 1 \<and> ret = INCORRECT \<and> crc = INITIAL_CRC \<and> consumed = [] \<or>
      0 \<le> snd (hd es) \<and>
        crc = get_checksum_crc32c INITIAL_CRC buffer_addr (take (nat offset) buffer @ consumed)
                have_hw_crc32"
    by (elim exE conjE) (rule that; assumption)
  from 5 have 6: "snd (hd es) = - 1 \<or>
      crc = get_checksum_crc32c INITIAL_CRC buffer_addr (take (nat offset) buffer @ consumed)
              have_hw_crc32"
    by blast
  show "\<exists>ret crc buf' fd' consumed es.
      get_file_checksum_crc32c fd buffer_addr buffer buf_size offset have_hw_crc32 =
        Some (ret, crc, buf', fd') \<and>
      content fd = consumed @ content fd' \<and>
      log fd' = log fd @ es \<and> es \<noteq> [] \<and>
      map fst es = nat (buf_size - offset) # replicate (length es - 1) (nat buf_size) \<and>
      (\<forall>e\<in>set (butlast es). snd e = int (fst e)) \<and>
      (snd (last es) = - 1 \<and> ret = INCORRECT \<and> None \<in> set (script fd) \<or>
       0 \<le> snd (last es) \<and> snd (last es) < int (fst (last es)) \<and> ret = SUCCESS) \<and>
      (snd (hd es) = - 1 \<or>
       crc = get_checksum_crc32c INITIAL_CRC buffer_addr (take (nat offset) buffer @ consumed)
               have_hw_crc32)"
    using 1 2 3 4 6
    by - (rule exI[of _ ret], rule exI[of _ crc], rule exI[of _ buf'], rule exI[of _ fd'],
        rule exI[of _ consumed], rule exI[of _ es], simp)
next
  show "offset = 0 \<and> script fd = [] \<and> length (content fd) = nat buf_size \<longrightarrow>
      get_file_checksum_crc32c fd buffer_addr buffer buf_size offset have_hw_crc32 =
        Some (SUCCESS,
              get_checksum_crc32c INITIAL_CRC buffer_addr (content fd) have_hw_crc32,
              content fd,
              fd\<lparr>content := [],
                 log := log fd @ [(nat buf_size, buf_size), (nat buf_size, 0)]\<rparr>)"
    using whole_buffer_file[OF assms(3,4), of fd buffer_addr have_hw_crc32] by blast
qed

theorem file_adapter_fold_witness:
  "get_file_checksum_crc32c \<lparr>content = [1, 2, 3, 4], script = [], log = []\<rparr> 0 [0, 0, 0, 0] 4 0 NO =
     Some (SUCCESS, get_checksum_crc32c INITIAL_CRC 0 [1, 2, 3, 4] NO, [1, 2, 3, 4],
           \<lparr>content = [], script = [], log = [(4, 4), (4, 0)]\<rparr>)"
proof -
  have h: "(0 :: int) \<le> 0" "(0 :: int) \<le> 4" "(0 :: int) < 4"
    "length [0, 0, 0, 0 :: u8] = nat 4"
    by simp_all
  from file_adapter_fold[OF h,
      of "\<lparr>content = [1, 2, 3, 4], script = [], log = []\<rparr>" 0 NO, THEN conjunct2]
  show ?thesis by simp
qed

text \<open>
  C8 (read results). The claim that a read returning 0 always ends the function with
  \<open>SUCCESS\<close> fails when \<open>offset = buf_size\<close>: the first read asks for no byte and
  returns 0, the buffer counts as full, the function reads again, and here that second
  read fails and the function returns \<open>INCORRECT\<close>.
\<close>

theorem file_adapter_zero_read_counterexample:
  "get_file_checksum_crc32c \<lparr>content = [], script = [Some 1, None], log = []\<rparr> 0 [0] 1 1 NO =
     Some (INCORRECT, 0xAD82ACAE, [0],
           \<lparr>content = [], script = [], log = [(0, 0), (1, - 1)]\<rparr>) \<and>
   INCORRECT \<noteq> SUCCESS"
  by code_simp

text \<open>
  C8, as amended. For \<open>0 \<le> offset \<le> buf_size\<close> the function returns whenever
  \<open>buf_size > 0\<close>, and whenever it returns: every read before the last one issued
  returned exactly the number of bytes asked for, and the last read either failed with
  \<open>-1\<close>, and the function returned \<open>INCORRECT\<close>, or returned fewer bytes than asked
  for, possibly 0, and the function returned \<open>SUCCESS\<close>. So a failing read is never
  followed by another read or retried, and a short read ends the function normally.
\<close>

theorem file_adapter_read_results:
  assumes "0 \<le> offset" "offset \<le> buf_size" "length buffer = nat buf_size"
  shows "(0 < buf_size \<longrightarrow>
      (\<exists>y. get_file_checksum_crc32c fd buffer_addr buffer buf_size offset have_hw_crc32 = Some y)) \<and>
    (\<forall>ret crc buf' fd'.
      get_file_checksum_crc32c fd buffer_addr buffer buf_size offset have_hw_crc32 =
        Some (ret, crc, buf', fd') \<longrightarrow>
      (\<exists>es. log fd' = log fd @ es \<and> es \<noteq> [] \<and>
         (\<forall>e\<in>set (butlast es). snd e = int (fst e)) \<and>
         (snd (last es) = - 1 \<and> ret = INCORRECT \<or>
          0 \<le> snd (last es) \<and> snd (last es) < int (fst (last es)) \<and> ret = SUCCESS)))"
proof (intro conjI impI allI)
  assume "0 < buf_size"
  with assms show
    "\<exists>y. get_file_checksum_crc32c fd buffer_addr buffer buf_size offset have_hw_crc32 = Some y"
    by (intro get_file_checksum_crc32c_terminates)
next
  fix ret crc buf' fd'
  assume "get_file_checksum_crc32c fd buffer_addr buffer buf_size offset have_hw_crc32 =
    Some (ret, crc, buf', fd')"
  from get_file_checksum_crc32c_returns[OF assms this]
  obtain consumed :: "u8 list" and es where
    3: "log fd' = log fd @ es" "es \<noteq> []"
      "\<forall>e\<in>set (butlast es). snd e = int (fst e)"
    and 4: "snd (last es) = - 1 \<and> ret = INCORRECT \<and> None \<in> set (script fd) \<or>
      0 \<le> snd (last es) \<and> snd (last es) < int (fst (last es)) \<and> ret = SUCCESS"
    by (elim exE conjE) (rule that; assumption)
  from 4 have 6: "snd (last es) = - 1 \<and> ret = INCORRECT \<or>
       0 \<le> snd (last es) \<and> snd (last es) < int (fst (last es)) \<and> ret = SUCCESS"
    by blast
  show "\<exists>es. log fd' = log fd @ es \<and> es \<noteq> [] \<and>
         (\<forall>e\<in>set (butlast es). snd e = int (fst e)) \<and>
         (snd (last es) = - 1 \<and> ret = INCORRECT \<or>
          0 \<le> snd (last es) \<and> snd (last es) < int (fst (last es)) \<and> ret = SUCCESS)"
    using 3 6 by - (rule exI[of _ es], simp)
qed

theorem file_adapter_read_results_witness:
  "(0 :: int) \<le> 0 \<and> (0 :: int) \<le> 2 \<and> (0 :: int) < 2 \<and> length [0, 0 :: u8] = nat 2 \<and>
   get_file_checksum_crc32c \<lparr>content = [1, 2, 3, 4], script = [Some 2, None], log = []\<rparr>
       0 [0, 0] 2 0 NO =
     Some (INCORRECT, get_checksum_crc32c INITIAL_CRC 0 [1, 2] NO, [1, 2],
           \<lparr>content = [3, 4], script = [], log = [(2, 2), (2, - 1)]\<rparr>) \<and>
   (\<exists>es.
      log \<lparr>content = [3, 4], script = [], log = [(2, 2), (2, - 1)]\<rparr> =
        log \<lparr>content = [1, 2, 3, 4], script = [Some 2, None], log = []\<rparr> @ es \<and>
      es \<noteq> [] \<and>
      (\<forall>e\<in>set (butlast es). snd e = int (fst e)) \<and>
      (snd (last es) = - 1 \<and> INCORRECT = INCORRECT \<or>
       0 \<le> snd (last es) \<and> snd (last es) < int (fst (last es)) \<and> INCORRECT = SUCCESS))"
proof -
  have h: "(0 :: int) \<le> 0" "(0 :: int) \<le> 2" "length [0, 0 :: u8] = nat 2"
    by simp_all
  have p: "(0 :: int) < 2" by simp
  have e: "get_file_checksum_crc32c \<lparr>content = [1, 2, 3, 4], script = [Some 2, None], log = []\<rparr>
       0 [0, 0] 2 0 NO =
     Some (INCORRECT, get_checksum_crc32c INITIAL_CRC 0 [1, 2] NO, [1, 2],
           \<lparr>content = [3, 4], script = [], log = [(2, 2), (2, - 1)]\<rparr>)"
    by code_simp
  note t = file_adapter_read_results[OF h,
      of "\<lparr>content = [1, 2, 3, 4], script = [Some 2, None], log = []\<rparr>" 0 NO,
      THEN conjunct2, rule_format, OF e]
  show ?thesis
    using h p e t by (intro conjI)
qed

text \<open>
  C9 (zero-length file). The claim that \<open>*crc\<close> is the unmodified \<open>INITIAL_CRC\<close>
  whenever the first read returns 0 fails for \<open>offset = 1\<close>: the byte already in the
  buffer is folded.
\<close>

theorem zero_length_file_counterexample:
  "get_file_checksum_crc32c \<lparr>content = [], script = [], log = []\<rparr> 0 [0, 0] 2 1 NO =
     Some (SUCCESS, 0xAD82ACAE, [0, 0], \<lparr>content = [], script = [], log = [(1, 0)]\<rparr>) \<and>
   0xAD82ACAE \<noteq> INITIAL_CRC"
  by code_simp

lemma read_fd_zero:
  assumes "read_fd fd count = (0, data, fd1)"
  shows "data = []"
  using assms read_fd_shape[of fd count] by auto

text \<open>
  C9, as amended. When the first read returns 0 and \<open>0 \<le> offset < buf_size\<close>, the
  function returns \<open>SUCCESS\<close> after that one read with \<open>*crc\<close> the checksum of the
  \<open>offset\<close> bytes already in the buffer; with \<open>offset = 0\<close> that is the unmodified
  \<open>INITIAL_CRC\<close>.
\<close>

theorem zero_length_file:
  assumes "read_fd fd (nat (buf_size - offset)) = (0, data, fd1)"
    and "0 \<le> offset" "offset < buf_size"
  shows "get_file_checksum_crc32c fd buffer_addr buffer buf_size offset have_hw_crc32 =
      Some (SUCCESS,
            get_checksum_crc32c INITIAL_CRC buffer_addr (take (nat offset) buffer) have_hw_crc32,
            buffer, fd1) \<and>
    (offset = 0 \<longrightarrow>
      get_file_checksum_crc32c fd buffer_addr buffer buf_size offset have_hw_crc32 =
        Some (SUCCESS, INITIAL_CRC, buffer, fd1))"
proof -
  have d: "data = []" using assms(1) by (rule read_fd_zero)
  have s: "store buffer (nat offset) [] = buffer" by (simp add: store_def)
  have 1: "get_file_checksum_crc32c fd buffer_addr buffer buf_size offset have_hw_crc32 =
      Some (SUCCESS,
            get_checksum_crc32c INITIAL_CRC buffer_addr (take (nat offset) buffer) have_hw_crc32,
            buffer, fd1)"
    unfolding get_file_checksum_crc32c_def Let_def assms(1) split_conv d s
    using assms(2,3) by simp
  have 2: "get_checksum_crc32c INITIAL_CRC buffer_addr (take (nat 0) buffer) have_hw_crc32 =
      INITIAL_CRC"
    by (simp add: get_checksum_crc32c_fold)
  show ?thesis using 1 2 by auto
qed

theorem zero_length_file_witness:
  "read_fd \<lparr>content = [], script = [], log = []\<rparr> (nat (2 - 0)) =
     (0, [], \<lparr>content = [], script = [], log = [(2, 0)]\<rparr>) \<and>
   (0 :: int) \<le> 0 \<and> (0 :: int) < 2 \<and>
   get_file_checksum_crc32c \<lparr>content = [], script = [], log = []\<rparr> 0 [7, 7] 2 0 NO =
     Some (SUCCESS, INITIAL_CRC, [7, 7], \<lparr>content = [], script = [], log = [(2, 0)]\<rparr>)"
proof -
  have h: "read_fd \<lparr>content = [], script = [], log = []\<rparr> (nat (2 - 0)) =
     (0, [], \<lparr>content = [], script = [], log = [(2, 0)]\<rparr>)"
    "(0 :: int) \<le> 0" "(0 :: int) < 2"
    by (simp_all add: read_fd_def)
  from zero_length_file[OF h, of 0 "[7, 7]" NO, THEN conjunct2] h
  show ?thesis by simp
qed

text \<open>
  C10 (the checksum on every return). For \<open>0 \<le> offset \<le> buf_size\<close> the function
  returns whenever \<open>buf_size > 0\<close>, and whenever it returns \<open>*crc\<close> is defined: when
  the first read fails it returns \<open>INCORRECT\<close> with \<open>*crc = INITIAL_CRC\<close> and
  nothing consumed; otherwise, whether it returns \<open>SUCCESS\<close> or, after a later read
  failed, \<open>INCORRECT\<close>, \<open>*crc\<close> is the checksum of the \<open>offset\<close> bytes already in
  the buffer followed by all bytes read before the return.
\<close>

theorem file_adapter_crc_on_return:
  assumes "0 \<le> offset" "offset \<le> buf_size" "length buffer = nat buf_size"
  shows "(0 < buf_size \<longrightarrow>
      (\<exists>y. get_file_checksum_crc32c fd buffer_addr buffer buf_size offset have_hw_crc32 = Some y)) \<and>
    (\<forall>ret crc buf' fd'.
      get_file_checksum_crc32c fd buffer_addr buffer buf_size offset have_hw_crc32 =
        Some (ret, crc, buf', fd') \<longrightarrow>
      (\<exists>consumed es.
         content fd = consumed @ content fd' \<and> log fd' = log fd @ es \<and> es \<noteq> [] \<and>
         (snd (hd es) = - 1 \<and> ret = INCORRECT \<and> crc = INITIAL_CRC \<and> consumed = [] \<or>
          0 \<le> snd (hd es) \<and>
            crc = get_checksum_crc32c INITIAL_CRC buffer_addr
                    (take (nat offset) buffer @ consumed) have_hw_crc32) \<and>
         (ret = INCORRECT \<and> snd (last es) = - 1 \<or> ret = SUCCESS \<and> 0 \<le> snd (last es))))"
proof (intro conjI impI allI)
  assume "0 < buf_size"
  with assms show
    "\<exists>y. get_file_checksum_crc32c fd buffer_addr buffer buf_size offset have_hw_crc32 = Some y"
    by (intro get_file_checksum_crc32c_terminates)
next
  fix ret crc buf' fd'
  assume "get_file_checksum_crc32c fd buffer_addr buffer buf_size offset have_hw_crc32 =
    Some (ret, crc, buf', fd')"
  from get_file_checksum_crc32c_returns[OF assms this]
  obtain consumed es where
    2: "content fd = consumed @ content fd'"
    and 3: "log fd' = log fd @ es" "es \<noteq> []"
    and 4: "snd (last es) = - 1 \<and> ret = INCORRECT \<and> None \<in> set (script fd) \<or>
      0 \<le> snd (last es) \<and> snd (last es) < int (fst (last es)) \<and> ret = SUCCESS"
    and 5: "snd (hd es) = - 1 \<and> ret = INCORRECT \<and> crc = INITIAL_CRC \<and> consumed = [] \<or>
      0 \<le> snd (hd es) \<and>
        crc = get_checksum_crc32c INITIAL_CRC buffer_addr (take (nat offset) buffer @ consumed)
                have_hw_crc32"
    by (elim exE conjE) (rule that; assumption)
  from 4 have 6: "ret = INCORRECT \<and> snd (last es) = - 1 \<or> ret = SUCCESS \<and> 0 \<le> snd (last es)"
    by blast
  show "\<exists>consumed es.
         content fd = consumed @ content fd' \<and> log fd' = log fd @ es \<and> es \<noteq> [] \<and>
         (snd (hd es) = - 1 \<and> ret = INCORRECT \<and> crc = INITIAL_CRC \<and> consumed = [] \<or>
          0 \<le> snd (hd es) \<and>
            crc = get_checksum_crc32c INITIAL_CRC buffer_addr
                    (take (nat offset) buffer @ consumed) have_hw_crc32) \<and>
         (ret = INCORRECT \<and> snd (last es) = - 1 \<or> ret = SUCCESS \<and> 0 \<le> snd (last es))"
    using 2 3 5 6 by - (rule exI[of _ consumed], rule exI[of _ es], simp)
qed

theorem file_adapter_crc_on_return_witness:
  "(0 :: int) \<le> 1 \<and> (1 :: int) \<le> 3 \<and> (0 :: int) < 3 \<and> length [9, 0, 0 :: u8] = nat 3 \<and>
   get_file_checksum_crc32c \<lparr>content = [1, 2, 3, 4, 5, 6], script = [Some 2, Some 3, None],
       log = []\<rparr> 0 [9, 0, 0] 3 1 NO =
     Some (INCORRECT, get_checksum_crc32c INITIAL_CRC 0 [9, 1, 2, 3, 4, 5] NO, [3, 4, 5],
           \<lparr>content = [6], script = [], log = [(2, 2), (3, 3), (3, - 1)]\<rparr>) \<and>
   (\<exists>consumed es.
      content \<lparr>content = [1, 2, 3, 4, 5, 6], script = [Some 2, Some 3, None], log = []\<rparr> =
        consumed @ content \<lparr>content = [6], script = [], log = [(2, 2), (3, 3), (3, - 1)]\<rparr> \<and>
      log \<lparr>content = [6], script = [], log = [(2, 2), (3, 3), (3, - 1)]\<rparr> =
        log \<lparr>content = [1, 2, 3, 4, 5, 6], script = [Some 2, Some 3, None], log = []\<rparr> @ es \<and>
      es \<noteq> [] \<and>
      (snd (hd es) = - 1 \<and> INCORRECT = INCORRECT \<and>
         get_checksum_crc32c INITIAL_CRC 0 [9, 1, 2, 3, 4, 5] NO = INITIAL_CRC \<and> consumed = [] \<or>
       0 \<le> snd (hd es) \<and>
         get_checksum_crc32c INITIAL_CRC 0 [9, 1, 2, 3, 4, 5] NO =
           get_checksum_crc32c INITIAL_CRC 0 (take (nat 1) [9, 0, 0] @ consumed) NO) \<and>
      (INCORRECT = INCORRECT \<and> snd (last es) = - 1 \<or>
       INCORRECT = SUCCESS \<and> 0 \<le> snd (last es))) \<and>
   get_file_checksum_crc32c \<lparr>content = [1, 2, 3], script = [None], log = []\<rparr> 0 [9, 0, 0] 3 1 NO =
     Some (INCORRECT, INITIAL_CRC, [9, 0, 0],
           \<lparr>content = [1, 2, 3], script = [], log = [(2, - 1)]\<rparr>)"
proof -
  have h: "(0 :: int) \<le> 1" "(1 :: int) \<le> 3" "length [9, 0, 0 :: u8] = nat 3"
    by simp_all
  have p: "(0 :: int) < 3" by simp
  have e: "get_file_checksum_crc32c \<lparr>content = [1, 2, 3, 4, 5, 6], script = [Some 2, Some 3, None],
       log = []\<rparr> 0 [9, 0, 0] 3 1 NO =
     Some (INCORRECT, get_checksum_crc32c INITIAL_CRC 0 [9, 1, 2, 3, 4, 5] NO, [3, 4, 5],
           \<lparr>content = [6], script = [], log = [(2, 2), (3, 3), (3, - 1)]\<rparr>)"
    by code_simp
  have f: "get_file_checksum_crc32c \<lparr>content = [1, 2, 3], script = [None], log = []\<rparr> 0 [9, 0, 0] 3 1 NO =
     Some (INCORRECT, INITIAL_CRC, [9, 0, 0],
           \<lparr>content = [1, 2, 3], script = [], log = [(2, - 1)]\<rparr>)"
    by code_simp
  note t = file_adapter_crc_on_return[OF h,
      of "\<lparr>content = [1, 2, 3, 4, 5, 6], script = [Some 2, Some 3, None], log = []\<rparr>" 0 NO,
      THEN conjunct2, rule_format, OF e]
  show ?thesis
    using h p e f t by (intro conjI)
qed


end
